theory Spec2Isabelle
  imports Complex_Main "HOL-Library.Sublist" "HOL-Library.AList" "HOL-Library.Code_Target_Nat"
begin

text \<open>
  The protocol adapter of the llama.cpp client: model discovery, the streaming tool-call
  accumulator of \<^verbatim>\<open>chatCompletionStream\<close>, the conversion of tool calls between the
  canonical and the wire form, and the token estimate.
\<close>

section \<open>JavaScript strings\<close>

text \<open>
  A JavaScript string is the list of its UTF-16 code units. \<open>js\<close> writes a string of the
  Latin-1 range from its characters and \<open>U\<close> one code unit.
\<close>

type_synonym code_unit = nat

type_synonym jsstring = "code_unit list"

abbreviation U :: "char \<Rightarrow> code_unit" where
  "U c \<equiv> of_char c"

abbreviation js :: "string \<Rightarrow> jsstring" where
  "js s \<equiv> map of_char s"

section \<open>Wire schema (openaiTypes.ts)\<close>

text \<open>
  A completed tool call as the streaming client builds it:
  \<^verbatim>\<open>{ id, type: 'function', function: { name, arguments } }\<close>.
  The field \<^verbatim>\<open>type\<close> is the constant \<^verbatim>\<open>'function'\<close> and is left out of the record.
\<close>

record OpenAIToolCall =
  tc_id :: jsstring
  tc_name :: jsstring
  tc_arguments :: jsstring

text \<open>
  A streaming chunk as \<^verbatim>\<open>chatCompletionStream\<close> reads it: the first choice, its delta, the
  content, and the tool-call deltas with index, id and the name and arguments fragments.
  Every field the client touches is optional (\<^verbatim>\<open>delta?.content\<close>,
  \<^verbatim>\<open>toolCallDelta.function?.name\<close>, ...); \<open>None\<close> is JavaScript's \<^verbatim>\<open>undefined\<close> or
  \<^verbatim>\<open>null\<close>.

  The client reads the chunk inside a \<^verbatim>\<open>try\<close> block and can fail after it has read a
  part of it. \<open>fd_throws\<close> says that reading the fragments of a function throws after the
  fragments given (a fragment that has no string rendering); \<open>delta_throws\<close> says that the
  loop over the tool calls throws after the tool-call deltas given (the value of
  \<^verbatim>\<open>tool_calls\<close> is not iterable, or its next element is \<^verbatim>\<open>null\<close>).
\<close>

record FunctionDelta =
  fd_name :: "jsstring option"
  fd_arguments :: "jsstring option"
  fd_throws :: bool

record ToolCallDelta =
  tcd_index :: "rat option"
  tcd_id :: "jsstring option"
  tcd_function :: "FunctionDelta option"

record Delta =
  delta_content :: "jsstring option"
  delta_tool_calls :: "ToolCallDelta list option"
  delta_throws :: bool

record Choice =
  choice_delta :: "Delta option"

record Chunk =
  choices :: "Choice list"

text \<open>The two shapes of the models list (\<^verbatim>\<open>LlamaCppModelsResponse\<close>); either array may be absent.\<close>

record LlamaCppModel =
  model_name :: jsstring

record OpenAIModel =
  model_id :: jsstring

record LlamaCppModelsResponse =
  models :: "LlamaCppModel list option"
  data :: "OpenAIModel list option"

section \<open>JSON text (the platform's JSON.stringify and JSON.parse)\<close>

text \<open>
  A JSON value. A number is kept as its numeral, the text of the number: JavaScript holds
  the double nearest to it, so that two numerals can denote the same number, and prints a
  number in a form of its own. An object is the list of its members in the order in which
  \<^verbatim>\<open>JSON.stringify\<close> writes them; for a parsed object that is the order of the text,
  except that JavaScript moves the keys that are array indices to the front. Only the
  texts that say so below depend on the print form of a number or on the order of the
  members.
\<close>

datatype json =
    JNull
  | JBool bool
  | JNumber jsstring
  | JString jsstring
  | JArray "json list"
  | JObject "(jsstring \<times> json) list"

subsection \<open>JSON.stringify\<close>

text \<open>
  Quoting follows ECMAScript's QuoteJSONString. The quotation mark and the reverse solidus
  are escaped; a control character below U+0020 is written with its short escape or as
  \<^verbatim>\<open>\uXXXX\<close> with lower-case hex digits; a surrogate that is not part of a pair (a
  leading surrogate followed by a trailing one) is written as \<^verbatim>\<open>\uXXXX\<close> too; every other
  code unit stands for itself.
\<close>

definition hex_digit :: "nat \<Rightarrow> code_unit" where
  "hex_digit n = U (''0123456789abcdef'' ! n)"

definition unicode_escape :: "code_unit \<Rightarrow> jsstring" where
  "unicode_escape u =
     [U (CHR 0x5C), U (CHR ''u''), hex_digit (u div 4096 mod 16), hex_digit (u div 256 mod 16),
      hex_digit (u div 16 mod 16), hex_digit (u mod 16)]"

definition is_leading_surrogate :: "code_unit \<Rightarrow> bool" where
  "is_leading_surrogate u = (0xD800 \<le> u \<and> u \<le> 0xDBFF)"

definition is_trailing_surrogate :: "code_unit \<Rightarrow> bool" where
  "is_trailing_surrogate u = (0xDC00 \<le> u \<and> u \<le> 0xDFFF)"

definition escape_unit :: "code_unit \<Rightarrow> jsstring" where
  "escape_unit u =
     (if u = U (CHR 0x22) then [U (CHR 0x5C), U (CHR 0x22)]
      else if u = U (CHR 0x5C) then [U (CHR 0x5C), U (CHR 0x5C)]
      else if u = 0x08 then [U (CHR 0x5C), U (CHR ''b'')]
      else if u = 0x0C then [U (CHR 0x5C), U (CHR ''f'')]
      else if u = 0x0A then [U (CHR 0x5C), U (CHR ''n'')]
      else if u = 0x0D then [U (CHR 0x5C), U (CHR ''r'')]
      else if u = 0x09 then [U (CHR 0x5C), U (CHR ''t'')]
      else if u < 0x20 \<or> is_leading_surrogate u \<or> is_trailing_surrogate u then unicode_escape u
      else [u])"

fun quote_body :: "jsstring \<Rightarrow> jsstring" where
  "quote_body [] = []"
| "quote_body [u] = escape_unit u"
| "quote_body (u # v # us) =
     (if is_leading_surrogate u \<and> is_trailing_surrogate v then u # v # quote_body us
      else escape_unit u @ quote_body (v # us))"

definition quote :: "jsstring \<Rightarrow> jsstring" where
  "quote s = U (CHR 0x22) # quote_body s @ [U (CHR 0x22)]"

text \<open>Members and elements are separated by a comma, with no white space.\<close>

fun join_commas :: "jsstring list \<Rightarrow> jsstring" where
  "join_commas [] = []"
| "join_commas [x] = x"
| "join_commas (x # y # ys) = x @ U (CHR '','') # join_commas (y # ys)"

fun JSON_stringify :: "json \<Rightarrow> jsstring" where
  "JSON_stringify JNull = js ''null''"
| "JSON_stringify (JBool b) = (if b then js ''true'' else js ''false'')"
| "JSON_stringify (JNumber lit) = lit"
| "JSON_stringify (JString s) = quote s"
| "JSON_stringify (JArray vs) = U (CHR ''['') # join_commas (map JSON_stringify vs) @ js '']''"
| "JSON_stringify (JObject kvs) =
     U (CHR ''{'') # join_commas (map (\<lambda>kv. quote (fst kv) @ U (CHR '':'') # JSON_stringify (snd kv)) kvs)
       @ js ''}''"

subsection \<open>JSON.parse\<close>

text \<open>
  The grammar of ECMA-404. White space is space, tab, line feed and carriage return. A
  scanner returns what it read and the text that is left, or \<open>None\<close> for a syntax error.
\<close>

definition is_ws :: "code_unit \<Rightarrow> bool" where
  "is_ws c = (c = 0x20 \<or> c = 0x09 \<or> c = 0x0A \<or> c = 0x0D)"

definition skip_ws :: "jsstring \<Rightarrow> jsstring" where
  "skip_ws s = dropWhile is_ws s"

definition expect :: "code_unit \<Rightarrow> jsstring \<Rightarrow> jsstring option" where
  "expect c s = (case s of [] \<Rightarrow> None | c' # r \<Rightarrow> if c' = c then Some r else None)"

text \<open>
  Numbers: an optional minus sign, an integer part without a leading zero, an optional
  fraction, an optional exponent. The scanner returns the numeral.
\<close>

definition is_digit :: "code_unit \<Rightarrow> bool" where
  "is_digit c = (U (CHR ''0'') \<le> c \<and> c \<le> U (CHR ''9''))"

definition scan_int :: "jsstring \<Rightarrow> (jsstring \<times> jsstring) option" where
  "scan_int s =
     (let ds = takeWhile is_digit s
      in if ds = [] then None
         else if hd ds = U (CHR ''0'') \<and> length ds > 1 then None
         else Some (ds, dropWhile is_digit s))"

definition scan_frac :: "jsstring \<Rightarrow> (jsstring \<times> jsstring) option" where
  "scan_frac s =
     (case s of
        [] \<Rightarrow> Some ([], [])
      | c # cs \<Rightarrow>
          if c = U (CHR ''.'')
          then (if takeWhile is_digit cs = [] then None
                else Some (c # takeWhile is_digit cs, dropWhile is_digit cs))
          else Some ([], s))"

definition scan_sign :: "jsstring \<Rightarrow> jsstring \<times> jsstring" where
  "scan_sign s =
     (case s of
        [] \<Rightarrow> ([], [])
      | c # cs \<Rightarrow> if c = U (CHR ''+'') \<or> c = U (CHR ''-'') then ([c], cs) else ([], s))"

definition scan_exp :: "jsstring \<Rightarrow> (jsstring \<times> jsstring) option" where
  "scan_exp s =
     (case s of
        [] \<Rightarrow> Some ([], [])
      | c # cs \<Rightarrow>
          if c = U (CHR ''e'') \<or> c = U (CHR ''E'')
          then (case scan_sign cs of
                  (sg, r) \<Rightarrow>
                    if takeWhile is_digit r = [] then None
                    else Some (c # sg @ takeWhile is_digit r, dropWhile is_digit r))
          else Some ([], s))"

definition scan_minus :: "jsstring \<Rightarrow> jsstring \<times> jsstring" where
  "scan_minus s =
     (case s of
        [] \<Rightarrow> ([], [])
      | c # cs \<Rightarrow> if c = U (CHR ''-'') then ([c], cs) else ([], s))"

definition scan_number :: "jsstring \<Rightarrow> (jsstring \<times> jsstring) option" where
  "scan_number s =
     (case scan_minus s of
        (m, s0) \<Rightarrow>
          (case scan_int s0 of
             None \<Rightarrow> None
           | Some (i, s1) \<Rightarrow>
               (case scan_frac s1 of
                  None \<Rightarrow> None
                | Some (f, s2) \<Rightarrow>
                    (case scan_exp s2 of
                       None \<Rightarrow> None
                     | Some (e, s3) \<Rightarrow> Some (m @ i @ f @ e, s3)))))"

text \<open>
  Strings, after the opening quotation mark. An escape is one of the short escapes or
  \<^verbatim>\<open>\uXXXX\<close> with four hex digits of either case, which gives that code unit. A raw
  control character below U+0020 is a syntax error; every other code unit stands for
  itself.
\<close>

definition unescape :: "code_unit \<Rightarrow> code_unit option" where
  "unescape e =
     (if e = U (CHR 0x22) then Some (U (CHR 0x22))
      else if e = U (CHR 0x5C) then Some (U (CHR 0x5C))
      else if e = U (CHR ''/'') then Some (U (CHR ''/''))
      else if e = U (CHR ''b'') then Some 0x08
      else if e = U (CHR ''f'') then Some 0x0C
      else if e = U (CHR ''n'') then Some 0x0A
      else if e = U (CHR ''r'') then Some 0x0D
      else if e = U (CHR ''t'') then Some 0x09
      else None)"

definition hex_value :: "code_unit \<Rightarrow> nat option" where
  "hex_value c =
     (if is_digit c then Some (c - U (CHR ''0''))
      else if U (CHR ''a'') \<le> c \<and> c \<le> U (CHR ''f'') then Some (c - U (CHR ''a'') + 10)
      else if U (CHR ''A'') \<le> c \<and> c \<le> U (CHR ''F'') then Some (c - U (CHR ''A'') + 10)
      else None)"

definition hex4 :: "code_unit \<Rightarrow> code_unit \<Rightarrow> code_unit \<Rightarrow> code_unit \<Rightarrow> code_unit option" where
  "hex4 a b c d =
     (case (hex_value a, hex_value b, hex_value c, hex_value d) of
        (Some w, Some x, Some y, Some z) \<Rightarrow> Some (4096 * w + 256 * x + 16 * y + z)
      | _ \<Rightarrow> None)"

fun parse_chars :: "jsstring \<Rightarrow> (jsstring \<times> jsstring) option" where
  "parse_chars [] = None"
| "parse_chars (c # cs) =
     (if c = U (CHR 0x22) then Some ([], cs)
      else if c = U (CHR 0x5C) then
        (case cs of
           [] \<Rightarrow> None
         | e # r \<Rightarrow>
             if e = U (CHR ''u'') then
               (case r of
                  h1 # h2 # h3 # h4 # r' \<Rightarrow>
                    (case hex4 h1 h2 h3 h4 of
                       None \<Rightarrow> None
                     | Some ch \<Rightarrow>
                         (case parse_chars r' of
                            None \<Rightarrow> None
                          | Some (s, rest) \<Rightarrow> Some (ch # s, rest)))
                | _ \<Rightarrow> None)
             else
               (case unescape e of
                  None \<Rightarrow> None
                | Some ch \<Rightarrow>
                    (case parse_chars r of
                       None \<Rightarrow> None
                     | Some (s, rest) \<Rightarrow> Some (ch # s, rest))))
      else if c < 0x20 then None
      else (case parse_chars cs of
              None \<Rightarrow> None
            | Some (s, rest) \<Rightarrow> Some (c # s, rest)))"

text \<open>
  Values, array elements and object members. Each recursive call is on text that is
  shorter than the text of the caller, or on the same text from \<open>parse_elems\<close> to
  \<open>parse_value\<close>; the tests on the lengths make that visible to the termination proof.
  A repeated key of an object overwrites the earlier value and keeps its place, as
  \<^verbatim>\<open>JSON.parse\<close> does.
\<close>

lemma length_skip_ws: "length (skip_ws s) \<le> length s"
  by (simp add: skip_ws_def length_dropWhile_le)

lemma expect_length: "expect c s = Some r \<Longrightarrow> length r < length s"
  by (auto simp: expect_def split: list.splits if_splits)

lemma parse_chars_length: "parse_chars s = Some (k, r) \<Longrightarrow> length r < length s"
proof (induction s arbitrary: k r rule: parse_chars.induct)
  case 1
  then show ?case by simp
next
  case (2 c cs)
  show ?case
    using "2.prems" "2.IH"
    by (auto split: if_splits list.splits option.splits prod.splits) force+
qed

function parse_value :: "jsstring \<Rightarrow> (json \<times> jsstring) option"
  and parse_elems :: "jsstring \<Rightarrow> (json list \<times> jsstring) option"
  and parse_members :: "jsstring \<Rightarrow> ((jsstring \<times> json) list \<times> jsstring) option"
where
  "parse_value [] = None"
| "parse_value (c # cs) =
     (if c = U (CHR ''{'') then
        (case expect (U (CHR ''}'')) (skip_ws cs) of
           Some r \<Rightarrow> Some (JObject [], r)
         | None \<Rightarrow>
             (case parse_members (skip_ws cs) of
                None \<Rightarrow> None
              | Some (kvs, r) \<Rightarrow> Some (JObject (foldl (\<lambda>acc kv. AList.update (fst kv) (snd kv) acc) [] kvs), r)))
      else if c = U (CHR ''['') then
        (case expect (U (CHR '']'')) (skip_ws cs) of
           Some r \<Rightarrow> Some (JArray [], r)
         | None \<Rightarrow>
             (case parse_elems (skip_ws cs) of
                None \<Rightarrow> None
              | Some (vs, r) \<Rightarrow> Some (JArray vs, r)))
      else if c = U (CHR 0x22) then
        (case parse_chars cs of
           None \<Rightarrow> None
         | Some (s, r) \<Rightarrow> Some (JString s, r))
      else if prefix (js ''null'') (c # cs) then Some (JNull, drop 4 (c # cs))
      else if prefix (js ''true'') (c # cs) then Some (JBool True, drop 4 (c # cs))
      else if prefix (js ''false'') (c # cs) then Some (JBool False, drop 5 (c # cs))
      else (case scan_number (c # cs) of
              None \<Rightarrow> None
            | Some (lit, r) \<Rightarrow> Some (JNumber lit, r)))"
| "parse_elems s =
     (case parse_value s of
        None \<Rightarrow> None
      | Some (v, r) \<Rightarrow>
          if length r < length s then
            (case expect (U (CHR '','')) (skip_ws r) of
               Some r' \<Rightarrow>
                 (case parse_elems (skip_ws r') of
                    None \<Rightarrow> None
                  | Some (vs, r'') \<Rightarrow> Some (v # vs, r''))
             | None \<Rightarrow>
                 (case expect (U (CHR '']'')) (skip_ws r) of
                    Some r' \<Rightarrow> Some ([v], r')
                  | None \<Rightarrow> None))
          else None)"
| "parse_members s =
     (case expect (U (CHR 0x22)) s of
        None \<Rightarrow> None
      | Some s1 \<Rightarrow>
          (case parse_chars s1 of
             None \<Rightarrow> None
           | Some (k, r1) \<Rightarrow>
               (case expect (U (CHR '':'')) (skip_ws r1) of
                  None \<Rightarrow> None
                | Some r2 \<Rightarrow>
                    (case parse_value (skip_ws r2) of
                       None \<Rightarrow> None
                     | Some (v, r3) \<Rightarrow>
                         if length r3 < length s then
                           (case expect (U (CHR '','')) (skip_ws r3) of
                              Some r4 \<Rightarrow>
                                (case parse_members (skip_ws r4) of
                                   None \<Rightarrow> None
                                 | Some (kvs, r5) \<Rightarrow> Some ((k, v) # kvs, r5))
                            | None \<Rightarrow>
                                (case expect (U (CHR ''}'')) (skip_ws r3) of
                                   Some r4 \<Rightarrow> Some ([(k, v)], r4)
                                 | None \<Rightarrow> None))
                         else None))))"
  by pat_completeness auto
termination
proof (relation "measure (\<lambda>x. case x of Inl s \<Rightarrow> 2 * length s
                                   | Inr (Inl s) \<Rightarrow> 2 * length s + 1
                                   | Inr (Inr s) \<Rightarrow> 2 * length s + 1)", goal_cases)
  case 1
  then show ?case by simp
next
  case (2 c cs)
  then show ?case using length_skip_ws[of cs] by simp
next
  case (3 c cs)
  then show ?case using length_skip_ws[of cs] by simp
next
  case (4 s)
  then show ?case by simp
next
  case (5 s x2 x y r')
  then show ?case
    using length_skip_ws[of r'] length_skip_ws[of y] expect_length[of "U (CHR '','')" "skip_ws y" r']
    by simp
next
  case (6 s s1 x2 k r1 r2)
  then show ?case
    using expect_length[of "U (CHR 0x22)" s s1] parse_chars_length[of s1 k r1]
      length_skip_ws[of r1] expect_length[of "U (CHR '':'')" "skip_ws r1" r2] length_skip_ws[of r2]
    by simp
next
  case (7 s s1 x2 k r1 r2 x2a v r3 r4)
  then show ?case
    using length_skip_ws[of r3] expect_length[of "U (CHR '','')" "skip_ws r3" r4] length_skip_ws[of r4]
    by simp
qed

text \<open>
  The equations of \<open>parse_elems\<close> and \<open>parse_members\<close> have a variable as argument;
  they are unfolded by hand.
\<close>

declare parse_elems.simps [simp del] parse_members.simps [simp del]

text \<open>The whole text must be one value, with white space allowed around it.\<close>

definition JSON_parse :: "jsstring \<Rightarrow> json option" where
  "JSON_parse s =
     (case parse_value (skip_ws s) of
        None \<Rightarrow> None
      | Some (v, r) \<Rightarrow> if skip_ws r = [] then Some v else None)"

text \<open>
  The values that \<^verbatim>\<open>JSON.stringify\<close> and \<^verbatim>\<open>JSON.parse\<close> exchange without loss: every
  numeral is a JSON number and no object has a repeated key.
\<close>

fun wf_json :: "json \<Rightarrow> bool" where
  "wf_json JNull = True"
| "wf_json (JBool b) = True"
| "wf_json (JNumber lit) = (scan_number lit = Some (lit, []))"
| "wf_json (JString s) = True"
| "wf_json (JArray vs) = list_all wf_json vs"
| "wf_json (JObject kvs) = (distinct (map fst kvs) \<and> list_all (\<lambda>kv. wf_json (snd kv)) kvs)"

section \<open>Reading a chunk\<close>

text \<open>
  \<^verbatim>\<open>const chunk: OpenAIChatCompletionResponse = JSON.parse(data)\<close>: the declared type is not
  checked when the program runs. The client reads properties of whatever value was parsed,
  tests them for truthiness and appends them to strings. This section follows these reads
  on an arbitrary JSON value and gives the result at the declared type: the fields hold
  what the client sees, and the places where a read throws are recorded. A field whose
  value is falsy is given as absent where the client only tests it for truthiness.

  Reading a property of a value that is not an object, or a key that an object does not
  have, gives \<^verbatim>\<open>undefined\<close> (\<open>None\<close>). None of the keys read here is a property of a
  string, a number, a boolean or an array.
\<close>

definition field :: "string \<Rightarrow> json \<Rightarrow> json option" where
  "field k j = (case j of JObject kvs \<Rightarrow> map_of kvs (js k) | _ \<Rightarrow> None)"

text \<open>
  The value of a numeral as a rational number, and the test for a number that is zero. A
  numeral denotes the double nearest to its value, which is zero exactly when the value is
  at most \<open>2\<^sup>-\<^sup>1\<^sup>0\<^sup>7\<^sup>5\<close> in magnitude (half of the smallest positive double; the tie goes to
  zero).
\<close>

definition digits_value :: "jsstring \<Rightarrow> nat" where
  "digits_value ds = foldl (\<lambda>n c. 10 * n + (c - U (CHR ''0''))) 0 ds"

definition exponent_value :: "jsstring \<Rightarrow> int" where
  "exponent_value e =
     (case scan_sign (tl e) of
        (sg, ds) \<Rightarrow> if sg = [U (CHR ''-'')] then - int (digits_value ds) else int (digits_value ds))"

text \<open>
  The parts of a numeral: its sign, the number written by the digits of its integer part
  and fraction, and the power of ten that number is to be multiplied by.
\<close>

definition numeral_parts :: "jsstring \<Rightarrow> bool \<times> nat \<times> int" where
  "numeral_parts lit =
     (case scan_minus lit of
        (m, s0) \<Rightarrow>
          (case scan_int s0 of
             None \<Rightarrow> (False, 0, 0)
           | Some (i, s1) \<Rightarrow>
               (case scan_frac s1 of
                  None \<Rightarrow> (False, 0, 0)
                | Some (f, s2) \<Rightarrow>
                    (case scan_exp s2 of
                       None \<Rightarrow> (False, 0, 0)
                     | Some (e, s3) \<Rightarrow>
                         (m \<noteq> [], digits_value (i @ tl f),
                          exponent_value e - int (length (tl f)))))))"

definition number_value :: "jsstring \<Rightarrow> rat" where
  "number_value lit =
     (case numeral_parts lit of
        (negative, m, e) \<Rightarrow>
          (if negative then - 1 else 1)
            * (if 0 \<le> e then of_nat m * 10 ^ nat e else of_nat m / 10 ^ nat (- e)))"

definition is_zero :: "jsstring \<Rightarrow> bool" where
  "is_zero lit = (\<bar>number_value lit\<bar> \<le> 1 / 2 ^ 1075)"

text \<open>
  Truthiness of a JSON value: \<^verbatim>\<open>null\<close>, \<^verbatim>\<open>false\<close>, zero and the empty string are falsy;
  arrays and objects are truthy.
\<close>

fun js_truthy :: "json \<Rightarrow> bool" where
  "js_truthy JNull = False"
| "js_truthy (JBool b) = b"
| "js_truthy (JNumber lit) = (\<not> is_zero lit)"
| "js_truthy (JString s) = (s \<noteq> [])"
| "js_truthy (JArray vs) = True"
| "js_truthy (JObject kvs) = True"

text \<open>
  The string that \<^verbatim>\<open>+=\<close> appends to a string for a value (the ToString conversion), or
  \<open>None\<close> when the conversion throws a TypeError. An array is the texts of its elements
  joined by commas, with nothing for \<^verbatim>\<open>null\<close>. A parsed object is \<^verbatim>\<open>[object Object]\<close>,
  unless it has a key \<^verbatim>\<open>toString\<close> of its own: that value is not a function, and the
  conversion finds no method to call. A number is given by its numeral here; JavaScript
  prints the shortest decimal that denotes the same double.
\<close>

fun to_string :: "json \<Rightarrow> jsstring option" where
  "to_string JNull = Some (js ''null'')"
| "to_string (JBool b) = Some (if b then js ''true'' else js ''false'')"
| "to_string (JNumber lit) = Some lit"
| "to_string (JString s) = Some s"
| "to_string (JArray vs) =
     map_option join_commas (those (map (\<lambda>v. if v = JNull then Some [] else to_string v) vs))"
| "to_string (JObject kvs) =
     (if js ''toString'' \<in> set (map fst kvs) then None else Some (js ''[object Object]''))"

text \<open>
  A value that the client keeps as it is (\<^verbatim>\<open>yield delta.content\<close>, \<^verbatim>\<open>id: toolCallDelta.id\<close>)
  where the declared type has a string: a string is itself; any other truthy value (a
  number, \<^verbatim>\<open>true\<close>, an array, an object) is represented by its JSON text, which is
  never empty.
\<close>

definition kept :: "json \<Rightarrow> jsstring" where
  "kept v = (case v of JString s \<Rightarrow> s | _ \<Rightarrow> JSON_stringify v)"

text \<open>
  \<^verbatim>\<open>if (f.name) call.name += f.name\<close>: nothing is appended for a value that is absent or
  falsy; a truthy value is converted to a string. The outer \<open>None\<close> is a conversion that
  throws.
\<close>

definition appended :: "json option \<Rightarrow> jsstring option option" where
  "appended v =
     (case v of
        None \<Rightarrow> Some None
      | Some x \<Rightarrow> if js_truthy x then map_option Some (to_string x) else Some None)"

text \<open>
  \<^verbatim>\<open>toolCallDelta.function?.name\<close> and \<^verbatim>\<open>toolCallDelta.function?.arguments\<close> (lines
  255-260), for a \<^verbatim>\<open>function\<close> that is neither absent nor \<^verbatim>\<open>null\<close>. The name is read
  first; when its conversion throws, the arguments are not read.
\<close>

definition decode_function :: "json \<Rightarrow> FunctionDelta" where
  "decode_function f =
     (case appended (field ''name'' f) of
        None \<Rightarrow> \<lparr>fd_name = None, fd_arguments = None, fd_throws = True\<rparr>
      | Some n \<Rightarrow>
          (case appended (field ''arguments'' f) of
             None \<Rightarrow> \<lparr>fd_name = n, fd_arguments = None, fd_throws = True\<rparr>
           | Some a \<Rightarrow> \<lparr>fd_name = n, fd_arguments = a, fd_throws = False\<rparr>))"

text \<open>
  One element of \<^verbatim>\<open>delta.tool_calls\<close> that is not \<^verbatim>\<open>null\<close>. The index is a number or
  nothing (\<^verbatim>\<open>index === 0\<close> holds for the number zero only).
\<close>

definition decode_tool_call :: "json \<Rightarrow> ToolCallDelta" where
  "decode_tool_call t =
     \<lparr>tcd_index =
        (case field ''index'' t of
           Some (JNumber lit) \<Rightarrow> Some (if is_zero lit then 0 else number_value lit)
         | _ \<Rightarrow> None),
      tcd_id =
        (case field ''id'' t of
           None \<Rightarrow> None
         | Some v \<Rightarrow> if js_truthy v then Some (kept v) else None),
      tcd_function =
        (case field ''function'' t of
           None \<Rightarrow> None
         | Some JNull \<Rightarrow> None
         | Some f \<Rightarrow> Some (decode_function f))\<rparr>"

text \<open>
  \<^verbatim>\<open>if (delta?.tool_calls) for (const toolCallDelta of delta.tool_calls)\<close> (lines 240-241):
  the elements the loop body runs on, and whether the loop then throws. An array is
  iterated up to its first \<^verbatim>\<open>null\<close>, where reading \<^verbatim>\<open>toolCallDelta.index\<close> throws. A
  string that is not empty is iterated character by character, and a character has none
  of the properties the body reads, so the body does nothing. Any other truthy value (a
  number, \<^verbatim>\<open>true\<close>, an object) is not iterable.
\<close>

definition decode_tool_calls :: "json option \<Rightarrow> ToolCallDelta list option \<times> bool" where
  "decode_tool_calls v =
     (case v of
        None \<Rightarrow> (None, False)
      | Some (JArray ts) \<Rightarrow>
          (Some (map decode_tool_call (takeWhile (\<lambda>t. t \<noteq> JNull) ts)), list_ex (\<lambda>t. t = JNull) ts)
      | Some (JString s) \<Rightarrow> (if s = [] then None else Some [], False)
      | Some x \<Rightarrow> if js_truthy x then (Some [], True) else (None, False))"

text \<open>A delta that is neither absent nor \<^verbatim>\<open>null\<close> (lines 235-241).\<close>

definition decode_delta :: "json \<Rightarrow> Delta" where
  "decode_delta d =
     \<lparr>delta_content =
        (case field ''content'' d of
           None \<Rightarrow> None
         | Some v \<Rightarrow> if js_truthy v then Some (kept v) else None),
      delta_tool_calls = fst (decode_tool_calls (field ''tool_calls'' d)),
      delta_throws = snd (decode_tool_calls (field ''tool_calls'' d))\<rparr>"

text \<open>\<^verbatim>\<open>choice?.delta\<close>: nothing for a choice that is \<^verbatim>\<open>null\<close> or has no delta.\<close>

definition decode_choice :: "json \<Rightarrow> Choice" where
  "decode_choice c =
     \<lparr>choice_delta =
        (case field ''delta'' c of
           None \<Rightarrow> None
         | Some JNull \<Rightarrow> None
         | Some d \<Rightarrow> Some (decode_delta d))\<rparr>"

text \<open>
  \<^verbatim>\<open>chunk.choices[0]\<close> (line 232) throws a TypeError when \<^verbatim>\<open>chunk.choices\<close> is
  \<^verbatim>\<open>undefined\<close> or \<^verbatim>\<open>null\<close>; that is the only way for a parsed payload not to be read as
  a chunk. Element 0 of an array is its first element; of an object, the member with key
  \<^verbatim>\<open>0\<close>; of a string, a character, which has no delta; a number or a boolean has no
  element.
\<close>

definition decode_chunk :: "json \<Rightarrow> Chunk option" where
  "decode_chunk j =
     (case field ''choices'' j of
        None \<Rightarrow> None
      | Some JNull \<Rightarrow> None
      | Some (JArray cs) \<Rightarrow> Some \<lparr>choices = map decode_choice cs\<rparr>
      | Some (JObject kvs) \<Rightarrow>
          Some \<lparr>choices = (case map_of kvs (js ''0'') of None \<Rightarrow> [] | Some c \<Rightarrow> [decode_choice c])\<rparr>
      | Some _ \<Rightarrow> Some \<lparr>choices = []\<rparr>)"

text \<open>
  Lines 231-232 as a whole: \<open>None\<close> when \<^verbatim>\<open>JSON.parse\<close> or \<^verbatim>\<open>chunk.choices[0]\<close>
  throws, which is before the \<^verbatim>\<open>try\<close> block has had any effect.
\<close>

definition parse_chunk :: "jsstring \<Rightarrow> Chunk option" where
  "parse_chunk payload = (case JSON_parse payload of None \<Rightarrow> None | Some j \<Rightarrow> decode_chunk j)"

text \<open>
  The text a server sends for a chunk: one line of the event stream,
  \<^verbatim>\<open>data: <payload>\<close> followed by a line feed.
\<close>

definition sse_line :: "jsstring \<Rightarrow> jsstring" where
  "sse_line payload = js ''data: '' @ payload @ [0x0A]"

text \<open>The JSON of a chunk whose first choice carries the given delta.\<close>

definition chunk_json :: "json \<Rightarrow> json" where
  "chunk_json delta = JObject [(js ''choices'', JArray [JObject [(js ''delta'', delta)]])]"

definition tool_calls_json :: "json list \<Rightarrow> json" where
  "tool_calls_json tcs = chunk_json (JObject [(js ''tool_calls'', JArray tcs)])"

definition content_json :: "jsstring \<Rightarrow> json" where
  "content_json s = chunk_json (JObject [(js ''content'', JString s)])"

section \<open>The streaming client (llamacppClient.ts, chatCompletionStream)\<close>

text \<open>
  What the generator hands to its consumer: a text fragment (\<^verbatim>\<open>yield delta.content\<close>) or a
  batch of tool calls (\<^verbatim>\<open>yield { tool_calls: toolCallAccumulator }\<close>).
\<close>

datatype event = Text jsstring | ToolCalls "OpenAIToolCall list"

text \<open>
  The local variables of one call of the generator, with the events yielded so far (oldest
  first) and the number of \<^verbatim>\<open>console.warn\<close> calls made by the \<^verbatim>\<open>catch\<close> block.
\<close>

record stream_state =
  currentToolCall :: "OpenAIToolCall option"
  toolCallAccumulator :: "OpenAIToolCall list"
  yielded :: "event list"
  warnings :: nat

definition initial_state :: stream_state where
  "initial_state =
     \<lparr>currentToolCall = None, toolCallAccumulator = [], yielded = [], warnings = 0\<rparr>"

text \<open>JavaScript truthiness of an optional string: present and not empty.\<close>

fun truthy :: "jsstring option \<Rightarrow> bool" where
  "truthy None = False"
| "truthy (Some s) = (s \<noteq> [])"

text \<open>The fragment that \<^verbatim>\<open>+=\<close> appends under \<^verbatim>\<open>if (fragment)\<close>: nothing when it is falsy.\<close>

fun fragment :: "jsstring option \<Rightarrow> jsstring" where
  "fragment None = []"
| "fragment (Some s) = s"

text \<open>
  \<^verbatim>\<open>if (currentToolCall && currentToolCall.id) toolCallAccumulator.push(currentToolCall)\<close>
\<close>

definition pushCurrent :: "stream_state \<Rightarrow> OpenAIToolCall list" where
  "pushCurrent st =
     (case currentToolCall st of
        None \<Rightarrow> toolCallAccumulator st
      | Some c \<Rightarrow> if tc_id c \<noteq> [] then toolCallAccumulator st @ [c] else toolCallAccumulator st)"

text \<open>
  The first \<^verbatim>\<open>if\<close> of the inner loop body (lines 242-252): a delta with index 0 and a truthy
  id closes the open call and opens a new one with empty name and arguments.
\<close>

definition opensCall :: "ToolCallDelta \<Rightarrow> bool" where
  "opensCall d = (tcd_index d = Some 0 \<and> truthy (tcd_id d))"

definition openCall :: "stream_state \<Rightarrow> ToolCallDelta \<Rightarrow> stream_state" where
  "openCall st d =
     (if opensCall d
      then st\<lparr>toolCallAccumulator := pushCurrent st,
              currentToolCall := Some \<lparr>tc_id = fragment (tcd_id d), tc_name = [], tc_arguments = []\<rparr>\<rparr>
      else st)"

text \<open>
  The second \<^verbatim>\<open>if\<close> of the inner loop body (lines 254-261): fragments are appended to the
  open call; with no open call nothing happens, and the fragments are not even read.
\<close>

definition fragmentName :: "ToolCallDelta \<Rightarrow> jsstring" where
  "fragmentName d = (case tcd_function d of None \<Rightarrow> [] | Some f \<Rightarrow> fragment (fd_name f))"

definition fragmentArguments :: "ToolCallDelta \<Rightarrow> jsstring" where
  "fragmentArguments d = (case tcd_function d of None \<Rightarrow> [] | Some f \<Rightarrow> fragment (fd_arguments f))"

definition appendFragments :: "stream_state \<Rightarrow> ToolCallDelta \<Rightarrow> stream_state" where
  "appendFragments st d =
     (case currentToolCall st of
        None \<Rightarrow> st
      | Some c \<Rightarrow>
          st\<lparr>currentToolCall :=
               Some (c\<lparr>tc_name := tc_name c @ fragmentName d,
                        tc_arguments := tc_arguments c @ fragmentArguments d\<rparr>)\<rparr>)"

definition applyToolCallDelta :: "stream_state \<Rightarrow> ToolCallDelta \<Rightarrow> stream_state" where
  "applyToolCallDelta st d = appendFragments (openCall st d) d"

text \<open>
  The loop \<^verbatim>\<open>for (const toolCallDelta of delta.tool_calls)\<close> (lines 241-262). The body
  throws when a call is open and a fragment cannot be converted to a string; what was
  appended before stays, and the rest of the loop is skipped. The result tells whether the
  loop threw.
\<close>

definition fragmentsThrow :: "ToolCallDelta \<Rightarrow> bool" where
  "fragmentsThrow d = (case tcd_function d of None \<Rightarrow> False | Some f \<Rightarrow> fd_throws f)"

fun applyToolCallDeltas :: "stream_state \<Rightarrow> ToolCallDelta list \<Rightarrow> stream_state \<times> bool" where
  "applyToolCallDeltas st [] = (st, False)"
| "applyToolCallDeltas st (d # ds) =
     (if currentToolCall (openCall st d) \<noteq> None \<and> fragmentsThrow d
      then (applyToolCallDelta st d, True)
      else applyToolCallDeltas (applyToolCallDelta st d) ds)"

text \<open>
  The body of the \<^verbatim>\<open>try\<close> block after line 232 (lines 234-263):
  \<^verbatim>\<open>chunk.choices[0]?.delta\<close>, the text event, then the loop over the tool-call deltas.
  The result tells whether the block threw; the effects made before the throw stay.
\<close>

definition firstDelta :: "Chunk \<Rightarrow> Delta option" where
  "firstDelta chunk = (case choices chunk of [] \<Rightarrow> None | c # _ \<Rightarrow> choice_delta c)"

definition yieldContent :: "stream_state \<Rightarrow> Delta \<Rightarrow> stream_state" where
  "yieldContent st d =
     (if truthy (delta_content d)
      then st\<lparr>yielded := yielded st @ [Text (fragment (delta_content d))]\<rparr>
      else st)"

definition applyDelta :: "stream_state \<Rightarrow> Delta \<Rightarrow> stream_state \<times> bool" where
  "applyDelta st d =
     (case delta_tool_calls d of
        None \<Rightarrow> (yieldContent st d, False)
      | Some tcs \<Rightarrow>
          (case applyToolCallDeltas (yieldContent st d) tcs of
             (st', thrown) \<Rightarrow> (st', thrown \<or> delta_throws d)))"

definition applyChunk :: "stream_state \<Rightarrow> Chunk \<Rightarrow> stream_state \<times> bool" where
  "applyChunk st chunk =
     (case firstDelta chunk of None \<Rightarrow> (st, False) | Some d \<Rightarrow> applyDelta st d)"

text \<open>
  The closing logic, written twice in the source (lines 221-226 at the terminal marker and
  lines 272-277 after the read loop): push the open call, then yield the batch if it is not
  empty.
\<close>

definition emitToolCalls :: "stream_state \<Rightarrow> stream_state" where
  "emitToolCalls st =
     (let acc = pushCurrent st
      in if acc \<noteq> []
         then st\<lparr>toolCallAccumulator := acc, yielded := yielded st @ [ToolCalls acc]\<rparr>
         else st\<lparr>toolCallAccumulator := acc\<rparr>)"

text \<open>
  \<^verbatim>\<open>String.prototype.trim\<close> strips white space and line terminators from both ends: the
  code units below.
\<close>

definition is_js_space :: "code_unit \<Rightarrow> bool" where
  "is_js_space c =
     (c \<in> set [0x09, 0x0A, 0x0B, 0x0C, 0x0D, 0x20, 0xA0, 0x1680, 0x2000, 0x2001, 0x2002,
               0x2003, 0x2004, 0x2005, 0x2006, 0x2007, 0x2008, 0x2009, 0x200A, 0x2028,
               0x2029, 0x202F, 0x205F, 0x3000, 0xFEFF])"

definition trim :: "jsstring \<Rightarrow> jsstring" where
  "trim s = rev (dropWhile is_js_space (rev (dropWhile is_js_space s)))"

text \<open>
  One iteration of \<^verbatim>\<open>for (const line of lines)\<close> (lines 215-267). The chunk parser
  \<open>parse\<close> stands for lines 231-232; \<open>None\<close> is a throw there. Every throw inside the
  \<^verbatim>\<open>try\<close> block is answered by the \<^verbatim>\<open>catch\<close> block with a warning, and the loop goes
  on. The result tells whether the generator returned (the terminal marker was seen).
\<close>

definition processLine ::
  "(jsstring \<Rightarrow> Chunk option) \<Rightarrow> stream_state \<Rightarrow> jsstring \<Rightarrow> stream_state \<times> bool" where
  "processLine parse st line =
     (let trimmed = trim line
      in if prefix (js ''data: '') trimmed
         then (let data = drop 6 trimmed
               in if data = js ''[DONE]'' then (emitToolCalls st, True)
                  else (case parse data of
                          None \<Rightarrow> (st\<lparr>warnings := Suc (warnings st)\<rparr>, False)
                        | Some chunk \<Rightarrow>
                            (case applyChunk st chunk of
                               (st', thrown) \<Rightarrow>
                                 (if thrown then st'\<lparr>warnings := Suc (warnings st')\<rparr> else st',
                                  False))))
         else (st, False))"

fun processLines ::
  "(jsstring \<Rightarrow> Chunk option) \<Rightarrow> stream_state \<Rightarrow> jsstring list \<Rightarrow> stream_state \<times> bool" where
  "processLines parse st [] = (st, False)"
| "processLines parse st (line # lines) =
     (case processLine parse st line of
        (st', True) \<Rightarrow> (st', True)
      | (st', False) \<Rightarrow> processLines parse st' lines)"

text \<open>
  \<^verbatim>\<open>String.prototype.split\<close> at a separator of one code unit: the result is never empty;
  its last piece is the text after the last separator.
\<close>

fun split_on :: "code_unit \<Rightarrow> jsstring \<Rightarrow> jsstring list" where
  "split_on sep [] = [[]]"
| "split_on sep (c # cs) =
     (if c = sep then [] # split_on sep cs
      else (case split_on sep cs of
              [] \<Rightarrow> [[c]]
            | l # ls \<Rightarrow> (c # l) # ls))"

text \<open>
  The \<^verbatim>\<open>while (true)\<close> loop (lines 205-269) over the pieces of text that the decoder
  delivers for the reads before \<^verbatim>\<open>done\<close>. The buffer keeps the incomplete last line
  (\<^verbatim>\<open>lines.pop() || ''\<close>). The loop ends when the pieces are used up, or at once when a
  line was the terminal marker.
\<close>

fun readLoop ::
  "(jsstring \<Rightarrow> Chunk option) \<Rightarrow> stream_state \<Rightarrow> jsstring \<Rightarrow> jsstring list \<Rightarrow> stream_state \<times> bool" where
  "readLoop parse st buffer [] = (st, False)"
| "readLoop parse st buffer (piece # pieces) =
     (let lines = split_on 0x0A (buffer @ piece)
      in case processLines parse st (butlast lines) of
           (st', True) \<Rightarrow> (st', True)
         | (st', False) \<Rightarrow> readLoop parse st' (last lines) pieces)"

text \<open>
  The generator from the first read on, for a request that was answered with a success
  status and a body (otherwise the generator throws before it yields anything). The result
  is the final state, whose \<open>yielded\<close> is the whole event sequence. When the pieces end
  without a terminal marker the closing logic runs after the loop (lines 271-277).
\<close>

definition chatCompletionStream :: "(jsstring \<Rightarrow> Chunk option) \<Rightarrow> jsstring list \<Rightarrow> stream_state" where
  "chatCompletionStream parse pieces =
     (case readLoop parse initial_state [] pieces of
        (st, True) \<Rightarrow> st
      | (st, False) \<Rightarrow> emitToolCalls st)"

section \<open>Tool-call conversion (toolConversion.ts)\<close>

text \<open>
  The canonical tool invocation (\<^verbatim>\<open>FunctionCall\<close> of the generation library): an optional id,
  the name (copied into the wire field \<^verbatim>\<open>function.name\<close>, of type string), and optional
  arguments, a JSON value.
\<close>

record FunctionCall =
  fc_id :: "jsstring option"
  fc_name :: jsstring
  fc_args :: "json option"

text \<open>
  \<^verbatim>\<open>convertGeminiFunctionCallToOpenAI(functionCall, callId?)\<close>. The id is
  \<^verbatim>\<open>callId || functionCall.id || generateToolCallId()\<close>; the generated id depends on the
  clock and on a random number and is a parameter here.
\<close>

definition convertGeminiFunctionCallToOpenAI ::
  "jsstring \<Rightarrow> FunctionCall \<Rightarrow> jsstring option \<Rightarrow> OpenAIToolCall" where
  "convertGeminiFunctionCallToOpenAI generated functionCall callId =
     \<lparr>tc_id = (if truthy callId then fragment callId
               else if truthy (fc_id functionCall) then fragment (fc_id functionCall)
               else generated),
      tc_name = fc_name functionCall,
      tc_arguments =
        JSON_stringify
          (case fc_args functionCall of
             None \<Rightarrow> JObject []
           | Some a \<Rightarrow> if js_truthy a then a else JObject [])\<rparr>"

text \<open>
  \<^verbatim>\<open>convertOpenAIToolCallToGemini(toolCall)\<close>: the arguments are parsed; when
  \<^verbatim>\<open>JSON.parse\<close> throws, the \<^verbatim>\<open>catch\<close> block warns and \<^verbatim>\<open>args\<close> keeps its
  initial value, the empty object.
\<close>

definition convertOpenAIToolCallToGemini :: "OpenAIToolCall \<Rightarrow> FunctionCall" where
  "convertOpenAIToolCallToGemini toolCall =
     \<lparr>fc_id = Some (tc_id toolCall),
      fc_name = tc_name toolCall,
      fc_args = Some (case JSON_parse (tc_arguments toolCall) of
                        None \<Rightarrow> JObject []
                      | Some v \<Rightarrow> v)\<rparr>"

definition convertOpenAIToolCallsToGemini :: "OpenAIToolCall list \<Rightarrow> FunctionCall list" where
  "convertOpenAIToolCallsToGemini toolCalls = map convertOpenAIToolCallToGemini toolCalls"

section \<open>Model discovery (llamacppClient.ts, initialize and extractModelName)\<close>

record LlamaCppClient =
  baseUrl :: jsstring
  model :: jsstring
  displayName :: jsstring

text \<open>
  The constructor strips one trailing slash from the base URL
  (\<^verbatim>\<open>baseUrl.replace(/\/$/, '')\<close>); no model is set and the display name is
  \<^verbatim>\<open>'llama.cpp'\<close>.
\<close>

definition new_LlamaCppClient :: "jsstring \<Rightarrow> LlamaCppClient" where
  "new_LlamaCppClient url =
     \<lparr>baseUrl = (if url \<noteq> [] \<and> last url = U (CHR ''/'') then butlast url else url),
      model = [],
      displayName = js ''llama.cpp''\<rparr>"

text \<open>
  \<^verbatim>\<open>nameWithoutExt.match(/^(.+?)[-_](.+)$/)\<close>: the pattern is anchored at both ends, so a
  match is the whole text. It matches when a hyphen or underscore stands between two
  non-empty parts and the text has no line terminator (line feed, carriage return, U+2028
  or U+2029, which \<^verbatim>\<open>.\<close> does not match).
\<close>

definition brand_model_match :: "jsstring \<Rightarrow> jsstring option" where
  "brand_model_match s =
     (if list_ex (\<lambda>c. c = U (CHR ''-'') \<or> c = U (CHR ''_'')) (butlast (tl s))
         \<and> list_all (\<lambda>c. c \<notin> set [0x0A, 0x0D, 0x2028, 0x2029]) s
      then Some s else None)"

text \<open>\<^verbatim>\<open>filename.replace(/\.gguf$/, '')\<close>: one trailing \<^verbatim>\<open>.gguf\<close> is removed.\<close>

definition strip_gguf :: "jsstring \<Rightarrow> jsstring" where
  "strip_gguf filename =
     (if suffix (js ''.gguf'') filename then take (length filename - 5) filename else filename)"

definition extractModelName :: "jsstring \<Rightarrow> jsstring" where
  "extractModelName modelPath =
     (let parts = split_on (U (CHR ''/'')) modelPath;
          filename = last parts;
          nameWithoutExt = strip_gguf filename
      in case brand_model_match nameWithoutExt of
           Some m \<Rightarrow> m
         | None \<Rightarrow> nameWithoutExt)"

text \<open>
  What \<^verbatim>\<open>fetchWithTimeout\<close> and \<^verbatim>\<open>response.json()\<close> deliver to \<^verbatim>\<open>initialize\<close>: the
  request fails (network error or abort after the timeout), or a response arrives with its
  status and, when the body is JSON, the models list.
\<close>

datatype fetch_result =
    FetchFailed
  | Response bool nat jsstring "LlamaCppModelsResponse option"

text \<open>
  The errors \<^verbatim>\<open>initialize\<close> throws; each is logged by the \<^verbatim>\<open>catch\<close> block and thrown
  again. The source throws \<^verbatim>\<open>Error\<close> objects that differ in their message only:
  \<^verbatim>\<open>Failed to fetch models: <status> <statusText>\<close> and
  \<^verbatim>\<open>No models available from llama.cpp server\<close>; the other two come from the platform.
\<close>

datatype error =
    FetchError
  | FailedToFetchModels nat jsstring
  | BodyNotJSON
  | NoModelsAvailable

text \<open>The result is what the call threw, if anything, and the client after the call.\<close>

definition initialize :: "LlamaCppClient \<Rightarrow> fetch_result \<Rightarrow> error option \<times> LlamaCppClient" where
  "initialize client r =
     (case r of
        FetchFailed \<Rightarrow> (Some FetchError, client)
      | Response ok status statusText body \<Rightarrow>
          if \<not> ok then (Some (FailedToFetchModels status statusText), client)
          else (case body of
                  None \<Rightarrow> (Some BodyNotJSON, client)
                | Some modelsResponse \<Rightarrow>
                    (case models modelsResponse of
                       Some (m # ms) \<Rightarrow>
                         (None, client\<lparr>model := model_name m,
                                        displayName := extractModelName (model_name m)\<rparr>)
                     | _ \<Rightarrow>
                         (case data modelsResponse of
                            Some (d # ds) \<Rightarrow>
                              (None, client\<lparr>model := model_id d,
                                             displayName := extractModelName (model_id d)\<rparr>)
                          | _ \<Rightarrow> (Some NoModelsAvailable, client)))))"

section \<open>Token estimate (contentGenerator.ts, countTokens)\<close>

text \<open>
  The contents of a request (\<^verbatim>\<open>ContentListUnion\<close>): one item or an array of items, each a
  string, a \<^verbatim>\<open>Content\<close> object (recognised by its \<^verbatim>\<open>role\<close> key) with optional parts, or
  a \<^verbatim>\<open>Part\<close> object with an optional text.
\<close>

record Part =
  part_text :: "jsstring option"

datatype ContentUnion =
    CString jsstring
  | CContent "jsstring option" "Part list option"
  | CPart Part

datatype ContentListUnion = Single ContentUnion | Many "ContentUnion list"

text \<open>\<^verbatim>\<open>p.text || ''\<close> and \<^verbatim>\<open>Array.prototype.join(' ')\<close>.\<close>

fun join_spaces :: "jsstring list \<Rightarrow> jsstring" where
  "join_spaces [] = []"
| "join_spaces [x] = x"
| "join_spaces (x # y # ys) = x @ U (CHR '' '') # join_spaces (y # ys)"

text \<open>
  The text the loop body adds for one item, before the space. An object without a
  \<^verbatim>\<open>role\<close> key is read as a \<^verbatim>\<open>Part\<close>: its \<^verbatim>\<open>text\<close>, which a \<^verbatim>\<open>Content\<close> does not
  have.
\<close>

fun item_text :: "ContentUnion \<Rightarrow> jsstring" where
  "item_text (CString s) = s"
| "item_text (CContent (Some role) None) = []"
| "item_text (CContent (Some role) (Some ps)) = join_spaces (map (\<lambda>p. fragment (part_text p)) ps)"
| "item_text (CContent None ps) = []"
| "item_text (CPart p) = fragment (part_text p)"

definition contents_list :: "ContentListUnion \<Rightarrow> ContentUnion list" where
  "contents_list c = (case c of Single x \<Rightarrow> [x] | Many xs \<Rightarrow> xs)"

definition contentText :: "ContentListUnion \<Rightarrow> jsstring" where
  "contentText c = foldl (\<lambda>acc item. acc @ item_text item @ js '' '') [] (contents_list c)"

text \<open>\<^verbatim>\<open>totalTokens: Math.ceil(contentText.length / 4)\<close>\<close>

definition countTokens :: "ContentListUnion \<Rightarrow> nat" where
  "countTokens c = nat \<lceil>real (length (contentText c)) / 4\<rceil>"

section \<open>Notions for the JSON round trip\<close>

text \<open>
  What may follow a number without being read as part of it, what may follow a value
  inside an array or an object, and the characters a JSON text can start with.
\<close>

definition ends_number :: "jsstring \<Rightarrow> bool" where
  "ends_number rest =
     (case rest of [] \<Rightarrow> True
      | c # _ \<Rightarrow> \<not> is_digit c \<and> c \<noteq> U (CHR ''.'') \<and> c \<noteq> U (CHR ''e'') \<and> c \<noteq> U (CHR ''E''))"

definition ends_value :: "jsstring \<Rightarrow> bool" where
  "ends_value rest =
     (case rest of [] \<Rightarrow> True | c # _ \<Rightarrow> c = U (CHR '','') \<or> c = U (CHR '']'') \<or> c = U (CHR ''}''))"

definition value_start :: "code_unit \<Rightarrow> bool" where
  "value_start c =
     (c = U (CHR 0x22) \<or> c = U (CHR ''{'') \<or> c = U (CHR ''['') \<or> c = U (CHR ''n'')
      \<or> c = U (CHR ''t'') \<or> c = U (CHR ''f'') \<or> c = U (CHR ''-'') \<or> is_digit c)"

text \<open>The text of one member of an object, as \<^verbatim>\<open>JSON.stringify\<close> writes it.\<close>

definition member_text :: "jsstring \<times> json \<Rightarrow> jsstring" where
  "member_text kv = quote (fst kv) @ U (CHR '':'') # JSON_stringify (snd kv)"

section \<open>The event sequence in terms of the decoded deltas\<close>

text \<open>
  The lines the read loop can ever process: the lines of the whole text that end in a line
  feed. The text after the last line feed stays in the buffer and is never processed.
\<close>

definition complete_lines :: "jsstring list \<Rightarrow> jsstring list" where
  "complete_lines pieces = butlast (split_on 0x0A (concat pieces))"

text \<open>A line that carries the terminal marker.\<close>

definition is_done :: "jsstring \<Rightarrow> bool" where
  "is_done line = (prefix (js ''data: '') (trim line) \<and> drop 6 (trim line) = js ''[DONE]'')"

text \<open>The delta a line decodes to, if it is a data line whose payload parses.\<close>

definition line_delta :: "(jsstring \<Rightarrow> Chunk option) \<Rightarrow> jsstring \<Rightarrow> Delta option" where
  "line_delta parse line =
     (if prefix (js ''data: '') (trim line)
      then (case parse (drop 6 (trim line)) of None \<Rightarrow> None | Some chunk \<Rightarrow> firstDelta chunk)
      else None)"

text \<open>The deltas of a response in the order they are decoded, up to the terminal marker.\<close>

definition decoded_deltas :: "(jsstring \<Rightarrow> Chunk option) \<Rightarrow> jsstring list \<Rightarrow> Delta list" where
  "decoded_deltas parse pieces =
     List.map_filter (line_delta parse) (takeWhile (\<lambda>l. \<not> is_done l) (complete_lines pieces))"

text \<open>The text fragments of a list of deltas, in order.\<close>

definition delta_texts :: "Delta list \<Rightarrow> jsstring list" where
  "delta_texts ds =
     map (\<lambda>d. fragment (delta_content d)) (filter (\<lambda>d. truthy (delta_content d)) ds)"

text \<open>The batch event of a final state: none when no tool call was completed.\<close>

definition batch_of :: "stream_state \<Rightarrow> event list" where
  "batch_of st = (if toolCallAccumulator st = [] then [] else [ToolCalls (toolCallAccumulator st)])"

text \<open>
  The invariant of the accumulator: the open call, the completed calls and the calls of
  every batch yielded so far have a non-empty id.
\<close>

definition ids_ok :: "stream_state \<Rightarrow> bool" where
  "ids_ok st =
     ((case currentToolCall st of None \<Rightarrow> True | Some c \<Rightarrow> tc_id c \<noteq> [])
      \<and> list_all (\<lambda>tc. tc_id tc \<noteq> []) (toolCallAccumulator st)
      \<and> list_all (\<lambda>e. case e of Text t \<Rightarrow> True
                            | ToolCalls tcs \<Rightarrow> list_all (\<lambda>tc. tc_id tc \<noteq> []) tcs)
           (yielded st))"

section \<open>The tool calls in terms of the decoded deltas\<close>

text \<open>
  The tool-call deltas that the loop body runs on. In one chunk these are the deltas of
  its list up to and including the first one at which the body throws; the body can throw
  only when a call is open, that is, once some delta has opened a call. The flag tells
  whether a call is open before the first delta.
\<close>

fun run_deltas :: "bool \<Rightarrow> ToolCallDelta list \<Rightarrow> ToolCallDelta list" where
  "run_deltas opened [] = []"
| "run_deltas opened (d # ds) =
     d # (if (opened \<or> opensCall d) \<and> fragmentsThrow d then []
          else run_deltas (opened \<or> opensCall d) ds)"

fun applied_deltas :: "bool \<Rightarrow> Delta list \<Rightarrow> ToolCallDelta list" where
  "applied_deltas opened [] = []"
| "applied_deltas opened (d # ds) =
     run_deltas opened (case delta_tool_calls d of None \<Rightarrow> [] | Some tcs \<Rightarrow> tcs)
       @ applied_deltas
           (opened \<or> list_ex opensCall
                        (run_deltas opened (case delta_tool_calls d of None \<Rightarrow> [] | Some tcs \<Rightarrow> tcs)))
           ds"

text \<open>
  The tool calls that a list of tool-call deltas describes: one call for every delta that
  opens a call, with the id of that delta; its name and its arguments are the
  concatenation of the fragments of that delta and of the deltas after it, up to the next
  delta that opens a call. Deltas before the first opening delta belong to no call.
\<close>

fun assembled :: "ToolCallDelta list \<Rightarrow> OpenAIToolCall list" where
  "assembled [] = []"
| "assembled (d # ds) =
     (if opensCall d
      then \<lparr>tc_id = fragment (tcd_id d),
            tc_name = concat (map fragmentName (d # takeWhile (\<lambda>e. \<not> opensCall e) ds)),
            tc_arguments = concat (map fragmentArguments (d # takeWhile (\<lambda>e. \<not> opensCall e) ds))\<rparr>
             # assembled ds
      else assembled ds)"

section \<open>The token estimate in terms of character counts\<close>

text \<open>
  The number of characters of all textual content of a request: the strings, the texts of
  the parts of every \<^verbatim>\<open>Content\<close>, and the texts of the \<^verbatim>\<open>Part\<close> items.
\<close>

definition parts_characters :: "Part list option \<Rightarrow> nat" where
  "parts_characters ps =
     (case ps of None \<Rightarrow> 0
      | Some l \<Rightarrow> sum_list (map (\<lambda>p. length (fragment (part_text p))) l))"

fun textual_characters_item :: "ContentUnion \<Rightarrow> nat" where
  "textual_characters_item (CString s) = length s"
| "textual_characters_item (CContent role ps) = parts_characters ps"
| "textual_characters_item (CPart p) = length (fragment (part_text p))"

definition textual_characters :: "ContentListUnion \<Rightarrow> nat" where
  "textual_characters c = sum_list (map textual_characters_item (contents_list c))"

text \<open>
  The characters \<^verbatim>\<open>countTokens\<close> counts for one item: its text, one space between
  consecutive parts of a \<^verbatim>\<open>Content\<close>, and the space that follows every item. A
  \<^verbatim>\<open>Content\<close> without a \<^verbatim>\<open>role\<close> key contributes the space only.
\<close>

fun counted_characters_item :: "ContentUnion \<Rightarrow> nat" where
  "counted_characters_item (CString s) = length s + 1"
| "counted_characters_item (CContent (Some role) ps) =
     parts_characters ps + (case ps of None \<Rightarrow> 0 | Some l \<Rightarrow> length l - 1) + 1"
| "counted_characters_item (CContent None ps) = 1"
| "counted_characters_item (CPart p) = length (fragment (part_text p)) + 1"

definition counted_characters :: "ContentListUnion \<Rightarrow> nat" where
  "counted_characters c = sum_list (map counted_characters_item (contents_list c))"

section \<open>The zero test, computed\<close>

text \<open>
  A numeral whose digits are not all zero and whose power of ten is above \<open>-324\<close> is
  not zero; for the others the comparison is one of natural numbers.
\<close>

lemma pow_bound: "(10::nat) ^ 323 < 2 ^ 1075"
  by simp

lemma is_zero_code [code]:
  "is_zero lit =
     (case numeral_parts lit of
        (negative, m, e) \<Rightarrow>
          if m = 0 then True
          else if - 324 < e then False
          else m * 2 ^ 1075 \<le> 10 ^ nat (- e))"
proof -
  obtain negative m e where p: "numeral_parts lit = (negative, m, e)"
    by (cases "numeral_parts lit") auto
  define x :: rat where "x = (if 0 \<le> e then of_nat m * 10 ^ nat e else of_nat m / 10 ^ nat (- e))"
  have x0: "0 \<le> x" by (simp add: x_def)
  have v: "\<bar>number_value lit\<bar> = x"
    using x0 by (simp add: number_value_def p x_def[symmetric] abs_mult)
  have small: "(1::rat) / 2 ^ 1075 < 1 / 10 ^ 323"
  proof -
    have "(10::rat) ^ 323 < 2 ^ 1075"
      using pow_bound of_nat_less_iff[of "10 ^ 323" "2 ^ 1075", where ?'a = rat] by simp
    then show ?thesis by (simp add: field_simps)
  qed
  show ?thesis
  proof (cases "m = 0")
    case True
    then show ?thesis by (simp add: is_zero_def v p x_def)
  next
    case m: False
    then have m1: "(1::rat) \<le> of_nat m" by simp
    show ?thesis
    proof (cases "- 324 < e")
      case True
      have "(1::rat) / 10 ^ 323 \<le> x"
      proof (cases "0 \<le> e")
        case True
        have p1: "(1::rat) \<le> 10 ^ nat e" by simp
        have "(1::rat) * 1 \<le> of_nat m * 10 ^ nat e"
          by (rule mult_mono[OF m1 p1]) simp_all
        then have "(1::rat) \<le> of_nat m * 10 ^ nat e" by simp
        moreover have "(1::rat) / 10 ^ 323 \<le> 1" by simp
        ultimately show ?thesis using True by (simp add: x_def)
      next
        case False
        then have k: "nat (- e) \<le> 323" using \<open>- 324 < e\<close> by simp
        have "(10::rat) ^ nat (- e) \<le> 10 ^ 323"
          using k by (intro power_increasing) simp_all
        then have "(1::rat) / 10 ^ 323 \<le> 1 / 10 ^ nat (- e)"
          by (simp add: field_simps)
        also have "\<dots> \<le> of_nat m / 10 ^ nat (- e)"
          using m1 by (simp add: divide_right_mono)
        finally show ?thesis using False by (simp add: x_def)
      qed
      then have "\<not> x \<le> 1 / 2 ^ 1075" using small by linarith
      then show ?thesis using m True by (simp add: is_zero_def v p)
    next
      case False
      then have neg: "\<not> 0 \<le> e" by simp
      have "x \<le> 1 / 2 ^ 1075 \<longleftrightarrow> (of_nat (m * 2 ^ 1075) :: rat) \<le> of_nat (10 ^ nat (- e))"
        using neg by (simp add: x_def field_simps)
      also have "\<dots> \<longleftrightarrow> m * 2 ^ 1075 \<le> 10 ^ nat (- e)"
        by (rule of_nat_le_iff)
      finally show ?thesis using m False by (simp add: is_zero_def v p)
    qed
  qed
qed

section \<open>JSON.parse after JSON.stringify\<close>

text \<open>
  The text that \<^verbatim>\<open>JSON.stringify\<close> writes for a well-formed value is read back by
  \<^verbatim>\<open>JSON.parse\<close> as the same value. The proof follows the grammar: strings, numbers,
  then values with their elements and members.
\<close>

lemma hex_value_hex_digit: "n < 16 \<Longrightarrow> hex_value (hex_digit n) = Some n"
proof -
  assume n: "n < 16"
  have "list_all (\<lambda>n. hex_value (hex_digit n) = Some n) [0..<16]"
    by code_simp
  then show ?thesis using n by (simp add: list_all_iff)
qed

lemma hex_digits_value:
  assumes "u < 65536"
  shows "4096 * (u div 4096 mod 16) + 256 * (u div 256 mod 16) + 16 * (u div 16 mod 16) + u mod 16
           = (u::nat)"
proof -
  define q1 where "q1 = u div 16"
  define q2 where "q2 = u div 256"
  define q3 where "q3 = u div 4096"
  have e1: "u = 16 * q1 + u mod 16" by (simp add: q1_def)
  have "u div 256 = u div 16 div 16" using div_mult2_eq[of u 16 16] by simp
  then have e2: "q1 = 16 * q2 + q1 mod 16" by (simp add: q1_def q2_def)
  have "u div 4096 = u div 256 div 16" using div_mult2_eq[of u 256 16] by simp
  then have e3: "q2 = 16 * q3 + q2 mod 16" by (simp add: q2_def q3_def)
  have "q3 < 16" using assms by (simp add: q3_def less_mult_imp_div_less)
  then have e4: "q3 mod 16 = q3" by simp
  have "4096 * (q3 mod 16) + 256 * (q2 mod 16) + 16 * (q1 mod 16) + u mod 16 = u"
    using e1 e2 e3 e4 by linarith
  then show ?thesis by (simp only: q1_def q2_def q3_def)
qed

lemma hex4_unicode_escape:
  assumes "u < 65536"
  shows "hex4 (hex_digit (u div 4096 mod 16)) (hex_digit (u div 256 mod 16))
           (hex_digit (u div 16 mod 16)) (hex_digit (u mod 16)) = Some u"
proof -
  have a: "hex_value (hex_digit (u div 4096 mod 16)) = Some (u div 4096 mod 16)"
    by (rule hex_value_hex_digit) simp
  have b: "hex_value (hex_digit (u div 256 mod 16)) = Some (u div 256 mod 16)"
    by (rule hex_value_hex_digit) simp
  have c: "hex_value (hex_digit (u div 16 mod 16)) = Some (u div 16 mod 16)"
    by (rule hex_value_hex_digit) simp
  have d: "hex_value (hex_digit (u mod 16)) = Some (u mod 16)"
    by (rule hex_value_hex_digit) simp
  show ?thesis
    by (simp only: hex4_def a b c d prod.case option.case hex_digits_value[OF assms])
qed

lemma parse_chars_u:
  "parse_chars (U (CHR 0x5C) # U (CHR ''u'') # h1 # h2 # h3 # h4 # r) =
     (case hex4 h1 h2 h3 h4 of
        None \<Rightarrow> None
      | Some ch \<Rightarrow>
          (case parse_chars r of
             None \<Rightarrow> None
           | Some (s, rest) \<Rightarrow> Some (ch # s, rest)))"
  by simp

lemma parse_chars_unicode_escape:
  assumes "u < 65536" and "parse_chars r = Some (s, rest)"
  shows "parse_chars (unicode_escape u @ r) = Some (u # s, rest)"
  unfolding unicode_escape_def
  by (simp only: append_Cons append_Nil parse_chars_u hex4_unicode_escape[OF assms(1)] assms(2)
        option.case prod.case)

lemma parse_chars_plain:
  assumes "u \<noteq> 0x22" and "u \<noteq> 0x5C" and "\<not> u < 0x20" and "parse_chars r = Some (s, rest)"
  shows "parse_chars (u # r) = Some (u # s, rest)"
  using assms by simp

lemma parse_chars_escape_unit:
  assumes "parse_chars r = Some (s, rest)"
  shows "parse_chars (escape_unit u @ r) = Some (u # s, rest)"
proof (cases "u < 0x20 \<or> is_leading_surrogate u \<or> is_trailing_surrogate u")
  case True
  then have small: "u < 65536"
    by (auto simp: is_leading_surrogate_def is_trailing_surrogate_def)
  have plain: "u \<noteq> 0x22" "u \<noteq> 0x5C"
    using True by (auto simp: is_leading_surrogate_def is_trailing_surrogate_def)
  show ?thesis
  proof (cases "u \<in> {0x08, 0x0C, 0x0A, 0x0D, 0x09}")
    case True
    then show ?thesis using assms by (auto simp: escape_unit_def unescape_def)
  next
    case False
    then have "escape_unit u = unicode_escape u"
      using True plain by (simp add: escape_unit_def)
    then show ?thesis using parse_chars_unicode_escape[OF small assms] by simp
  qed
next
  case False
  then show ?thesis using assms
    by (auto simp: escape_unit_def unescape_def is_leading_surrogate_def is_trailing_surrogate_def)
qed

lemma parse_chars_quote_body:
  "parse_chars (quote_body s @ U (CHR 0x22) # rest) = Some (s, rest)"
proof (induction s rule: quote_body.induct)
  case 1
  then show ?case by simp
next
  case (2 u)
  have "parse_chars (U (CHR 0x22) # rest) = Some ([], rest)" by simp
  then have "parse_chars (escape_unit u @ U (CHR 0x22) # rest) = Some ([u], rest)"
    by (rule parse_chars_escape_unit)
  then show ?case by (simp only: quote_body.simps)
next
  case (3 u v us)
  show ?case
  proof (cases "is_leading_surrogate u \<and> is_trailing_surrogate v")
    case True
    have qb: "quote_body (u # v # us) = u # v # quote_body us"
      using True by simp
    have ih: "parse_chars (quote_body us @ U (CHR 0x22) # rest) = Some (us, rest)"
      using "3.IH"(1)[OF True] .
    have v: "parse_chars (v # quote_body us @ U (CHR 0x22) # rest) = Some (v # us, rest)"
      using True by (intro parse_chars_plain ih) (auto simp: is_trailing_surrogate_def)
    have "parse_chars (u # v # quote_body us @ U (CHR 0x22) # rest) = Some (u # v # us, rest)"
      using True by (intro parse_chars_plain v) (auto simp: is_leading_surrogate_def)
    then show ?thesis by (simp only: qb append_Cons)
  next
    case False
    have qb: "quote_body (u # v # us) = escape_unit u @ quote_body (v # us)"
      using False by auto
    have ih: "parse_chars (quote_body (v # us) @ U (CHR 0x22) # rest) = Some (v # us, rest)"
      using "3.IH"(2)[OF False] .
    have "parse_chars (escape_unit u @ quote_body (v # us) @ U (CHR 0x22) # rest)
            = Some (u # v # us, rest)"
      using ih by (rule parse_chars_escape_unit)
    then show ?thesis by (simp only: qb append_assoc)
  qed
qed

lemma takeWhile_digits_append:
  "dropWhile is_digit s \<noteq> [] \<or> ends_number rest \<Longrightarrow>
   takeWhile is_digit (s @ rest) = takeWhile is_digit s
   \<and> dropWhile is_digit (s @ rest) = dropWhile is_digit s @ rest"
proof (induction s)
  case Nil
  then show ?case by (cases rest) (auto simp: ends_number_def)
next
  case (Cons c s)
  then show ?case by auto
qed

lemma scan_int_append:
  assumes "scan_int s = Some (i, r)" and "r \<noteq> [] \<or> ends_number rest"
  shows "scan_int (s @ rest) = Some (i, r @ rest)"
proof -
  have r: "r = dropWhile is_digit s" using assms(1) by (auto simp: scan_int_def Let_def split: if_splits)
  show ?thesis
    using assms takeWhile_digits_append[of s rest] r
    by (auto simp: scan_int_def Let_def split: if_splits)
qed

lemma scan_frac_append:
  assumes "scan_frac s = Some (f, r)" and "r \<noteq> [] \<or> ends_number rest"
  shows "scan_frac (s @ rest) = Some (f, r @ rest)"
proof (cases s)
  case Nil
  then show ?thesis using assms by (cases rest) (auto simp: scan_frac_def ends_number_def)
next
  case (Cons c cs)
  show ?thesis
  proof (cases "c = U (CHR ''.'')")
    case True
    then have r: "r = dropWhile is_digit cs" using assms(1) Cons
      by (auto simp: scan_frac_def split: if_splits)
    show ?thesis
      using assms Cons True takeWhile_digits_append[of cs rest] r
      by (auto simp: scan_frac_def split: if_splits)
  next
    case False
    then show ?thesis using assms Cons by (auto simp: scan_frac_def)
  qed
qed

lemma scan_exp_append:
  assumes "scan_exp s = Some (e, r)" and "r \<noteq> [] \<or> ends_number rest"
  shows "scan_exp (s @ rest) = Some (e, r @ rest)"
proof (cases s)
  case Nil
  then show ?thesis using assms by (cases rest) (auto simp: scan_exp_def ends_number_def)
next
  case (Cons c cs)
  show ?thesis
  proof (cases "c = U (CHR ''e'') \<or> c = U (CHR ''E'')")
    case True
    obtain sg r0 where sg: "scan_sign cs = (sg, r0)" by (cases "scan_sign cs") auto
    have ne: "takeWhile is_digit r0 \<noteq> []" and r: "r = dropWhile is_digit r0"
      using assms(1) Cons True sg by (auto simp: scan_exp_def split: if_splits)
    have r0ne: "r0 \<noteq> []" using ne by auto
    have sg': "scan_sign (cs @ rest) = (sg, r0 @ rest)"
      using sg r0ne by (cases cs) (auto simp: scan_sign_def split: if_splits)
    show ?thesis
      using assms Cons True takeWhile_digits_append[of r0 rest] r sg sg' ne
      by (auto simp: scan_exp_def split: if_splits)
  next
    case False
    then show ?thesis using assms Cons by (auto simp: scan_exp_def)
  qed
qed

lemma scan_int_nonempty: "scan_int s = Some (i, r) \<Longrightarrow> s \<noteq> [] \<and> is_digit (hd s)"
  by (cases s) (auto simp: scan_int_def Let_def split: if_splits)

lemma scan_number_append:
  assumes "scan_number s = Some (lit, r)" and "r \<noteq> [] \<or> ends_number rest"
  shows "scan_number (s @ rest) = Some (lit, r @ rest)"
proof -
  obtain m s0 where m: "scan_minus s = (m, s0)" by (cases "scan_minus s") auto
  obtain i s1 where i: "scan_int s0 = Some (i, s1)"
    using assms(1) m by (auto simp: scan_number_def split: option.splits)
  obtain f s2 where f: "scan_frac s1 = Some (f, s2)"
    using assms(1) m i by (auto simp: scan_number_def split: option.splits)
  obtain e where e: "scan_exp s2 = Some (e, r)" and lit: "lit = m @ i @ f @ e"
    using assms(1) m i f by (auto simp: scan_number_def split: option.splits)
  have s0ne: "s0 \<noteq> []" using scan_int_nonempty[OF i] by simp
  have m': "scan_minus (s @ rest) = (m, s0 @ rest)"
    using m s0ne by (cases s) (auto simp: scan_minus_def split: if_splits)
  have e': "scan_exp (s2 @ rest) = Some (e, r @ rest)"
    using scan_exp_append[OF e assms(2)] .
  have s2r: "s2 \<noteq> [] \<or> ends_number rest"
    using e assms(2) by (cases s2) (auto simp: scan_exp_def)
  have f': "scan_frac (s1 @ rest) = Some (f, s2 @ rest)"
    using scan_frac_append[OF f s2r] .
  have s1r: "s1 \<noteq> [] \<or> ends_number rest"
    using f s2r by (cases s1) (auto simp: scan_frac_def)
  have i': "scan_int (s0 @ rest) = Some (i, s1 @ rest)"
    using scan_int_append[OF i s1r] .
  show ?thesis by (simp add: scan_number_def m' i' f' e' lit)
qed

lemma scan_number_start:
  assumes "scan_number s = Some (lit, r)"
  shows "s \<noteq> [] \<and> (hd s = U (CHR ''-'') \<or> is_digit (hd s))"
proof -
  obtain m s0 where m: "scan_minus s = (m, s0)" by (cases "scan_minus s") auto
  obtain i s1 where i: "scan_int s0 = Some (i, s1)"
    using assms(1) m by (auto simp: scan_number_def split: option.splits)
  show ?thesis
    using scan_int_nonempty[OF i] m by (cases s) (auto simp: scan_minus_def split: if_splits)
qed

lemma ends_value_number: "ends_value rest \<Longrightarrow> ends_number rest"
  by (auto simp: ends_value_def ends_number_def is_digit_def split: list.splits)

lemma stringify_start:
  "wf_json v \<Longrightarrow> \<exists>c cs. JSON_stringify v = c # cs \<and> value_start c"
proof (cases v)
  case (JNumber lit)
  assume "wf_json v"
  then have "lit \<noteq> [] \<and> (hd lit = U (CHR ''-'') \<or> is_digit (hd lit))"
    using scan_number_start[of lit lit "[]"] JNumber by simp
  then show ?thesis using JNumber by (cases lit) (auto simp: value_start_def is_digit_def)
qed (auto simp: value_start_def quote_def)

lemma skip_ws_start: "value_start c \<Longrightarrow> skip_ws (c # cs) = c # cs"
  by (auto simp: value_start_def skip_ws_def is_ws_def is_digit_def)

lemma skip_ws_ends: "ends_value rest \<Longrightarrow> skip_ws rest = rest"
  by (cases rest) (auto simp: ends_value_def skip_ws_def is_ws_def)

lemma expect_start: "value_start c \<Longrightarrow> expect (U (CHR '']'')) (c # cs) = None \<and> expect (U (CHR ''}'')) (c # cs) = None"
  by (auto simp: value_start_def expect_def is_digit_def)

lemma dedup_distinct:
  "distinct (map fst (acc @ kvs)) \<Longrightarrow>
   foldl (\<lambda>acc kv. AList.update (fst kv) (snd kv) acc) acc kvs = acc @ kvs"
proof (induction kvs arbitrary: acc)
  case Nil
  then show ?case by simp
next
  case (Cons kv kvs)
  have "fst kv \<notin> fst ` set acc" using Cons.prems by auto
  then have u: "AList.update (fst kv) (snd kv) acc = acc @ [kv]"
    by (induction acc) auto
  show ?case using Cons.IH[of "acc @ [kv]"] Cons.prems u by simp
qed

lemma parse_elems_step:
  "parse_value s = Some (v, r) \<Longrightarrow> length r < length s \<Longrightarrow>
   parse_elems s =
     (case expect (U (CHR '','')) (skip_ws r) of
        Some r' \<Rightarrow>
          (case parse_elems (skip_ws r') of
             None \<Rightarrow> None
           | Some (vs, r'') \<Rightarrow> Some (v # vs, r''))
      | None \<Rightarrow>
          (case expect (U (CHR '']'')) (skip_ws r) of
             Some r' \<Rightarrow> Some ([v], r')
           | None \<Rightarrow> None))"
  by (subst parse_elems.simps) simp

lemma stringify_nonempty: "wf_json v \<Longrightarrow> JSON_stringify v \<noteq> []"
  using stringify_start[of v] by auto

lemma parse_elems_join:
  assumes "vs \<noteq> []"
    and "\<And>v rest. v \<in> set vs \<Longrightarrow> ends_value rest \<Longrightarrow>
           parse_value (JSON_stringify v @ rest) = Some (v, rest)"
    and "\<And>v. v \<in> set vs \<Longrightarrow> wf_json v"
  shows "parse_elems (join_commas (map JSON_stringify vs) @ U (CHR '']'') # rest) = Some (vs, rest)"
  using assms
proof (induction vs rule: list_nonempty_induct)
  case (single v)
  have ev: "ends_value (U (CHR '']'') # rest)" by (simp del: of_char_Char add: ends_value_def)
  have pv: "parse_value (JSON_stringify v @ U (CHR '']'') # rest) = Some (v, U (CHR '']'') # rest)"
    using single(1)[OF _ ev] by (simp del: of_char_Char)
  have len: "length (U (CHR '']'') # rest) < length (JSON_stringify v @ U (CHR '']'') # rest)"
    using stringify_nonempty[of v] single(2) by (simp del: of_char_Char)
  show ?case
    using parse_elems_step[OF pv len] by (simp del: of_char_Char add: skip_ws_ends[OF ev] expect_def)
next
  case (cons v vs)
  obtain v' vs' where vs: "vs = v' # vs'" using cons(1) by (cases vs) auto
  let ?tail = "join_commas (map JSON_stringify vs) @ U (CHR '']'') # rest"
  have ev: "ends_value (U (CHR '','') # ?tail)" by (simp del: of_char_Char add: ends_value_def)
  have pv: "parse_value (JSON_stringify v @ U (CHR '','') # ?tail) = Some (v, U (CHR '','') # ?tail)"
    using cons(3)[OF _ ev] by (simp del: of_char_Char)
  have len: "length (U (CHR '','') # ?tail) < length (JSON_stringify v @ U (CHR '','') # ?tail)"
    using stringify_nonempty[of v] cons(4) by (simp del: of_char_Char)
  obtain c' cs' where st': "JSON_stringify v' = c' # cs'" and vs': "value_start c'"
    using stringify_start[of v'] cons(4) vs by auto
  have tl: "skip_ws ?tail = ?tail"
    using vs st' vs' skip_ws_start[OF vs'] by (cases vs') (simp_all del: of_char_Char)
  have ih: "parse_elems ?tail = Some (vs, rest)"
    using cons(2) cons(3) cons(4) by (simp del: of_char_Char)
  have js: "join_commas (map JSON_stringify (v # vs)) @ U (CHR '']'') # rest
              = JSON_stringify v @ U (CHR '','') # ?tail"
    using vs by (simp del: of_char_Char)
  show ?case
    unfolding js using parse_elems_step[OF pv len]
    by (simp del: of_char_Char add: skip_ws_ends[OF ev] expect_def tl ih)
qed

lemma parse_members_step:
  assumes "parse_value (skip_ws r2) = Some (v, r3)"
    and "length r3 < length (quote k @ U (CHR '':'') # r2)"
  shows "parse_members (quote k @ U (CHR '':'') # r2) =
     (case expect (U (CHR '','')) (skip_ws r3) of
        Some r4 \<Rightarrow>
          (case parse_members (skip_ws r4) of
             None \<Rightarrow> None
           | Some (kvs, r5) \<Rightarrow> Some ((k, v) # kvs, r5))
      | None \<Rightarrow>
          (case expect (U (CHR ''}'')) (skip_ws r3) of
             Some r4 \<Rightarrow> Some ([(k, v)], r4)
           | None \<Rightarrow> None))"
proof -
  have q: "expect (U (CHR 0x22)) (quote k @ U (CHR '':'') # r2)
             = Some (quote_body k @ U (CHR 0x22) # U (CHR '':'') # r2)"
    by (simp del: of_char_Char add: quote_def expect_def)
  have c: "expect (U (CHR '':'')) (skip_ws (U (CHR '':'') # r2)) = Some r2"
    by (simp add: expect_def skip_ws_def is_ws_def)
  show ?thesis
    using assms
    by (subst parse_members.simps) (simp del: of_char_Char add: q parse_chars_quote_body c)
qed

lemma member_text_start: "\<exists>cs. member_text kv = U (CHR 0x22) # cs"
  by (simp del: of_char_Char add: member_text_def quote_def)

lemma skip_ws_member: "skip_ws (member_text kv @ r) = member_text kv @ r"
  by (simp add: member_text_def quote_def skip_ws_def is_ws_def)

lemma skip_ws_stringify: "wf_json v \<Longrightarrow> skip_ws (JSON_stringify v @ r) = JSON_stringify v @ r"
proof -
  assume "wf_json v"
  then obtain c cs where st: "JSON_stringify v = c # cs" and vs: "value_start c"
    using stringify_start[of v] by auto
  show ?thesis using skip_ws_start[OF vs, of "cs @ r"] by (simp del: of_char_Char add: st)
qed

lemma parse_members_join:
  assumes "kvs \<noteq> []"
    and "\<And>kv rest. kv \<in> set kvs \<Longrightarrow> ends_value rest \<Longrightarrow>
           parse_value (JSON_stringify (snd kv) @ rest) = Some (snd kv, rest)"
    and "\<And>kv. kv \<in> set kvs \<Longrightarrow> wf_json (snd kv)"
  shows "parse_members (join_commas (map member_text kvs) @ U (CHR ''}'') # rest) = Some (kvs, rest)"
  using assms
proof (induction kvs rule: list_nonempty_induct)
  case (single kv)
  have ev: "ends_value (U (CHR ''}'') # rest)" by (simp del: of_char_Char add: ends_value_def)
  have pv: "parse_value (skip_ws (JSON_stringify (snd kv) @ U (CHR ''}'') # rest))
              = Some (snd kv, U (CHR ''}'') # rest)"
    using single(1)[OF _ ev] single(2) by (simp del: of_char_Char add: skip_ws_stringify)
  have len: "length (U (CHR ''}'') # rest)
               < length (quote (fst kv) @ U (CHR '':'') # JSON_stringify (snd kv) @ U (CHR ''}'') # rest)"
    by (simp del: of_char_Char)
  show ?case
    using parse_members_step[OF pv len]
    by (simp del: of_char_Char add: member_text_def skip_ws_ends[OF ev] expect_def)
next
  case (cons kv kvs)
  let ?tail = "join_commas (map member_text kvs) @ U (CHR ''}'') # rest"
  have ev: "ends_value (U (CHR '','') # ?tail)" by (simp del: of_char_Char add: ends_value_def)
  have pv: "parse_value (skip_ws (JSON_stringify (snd kv) @ U (CHR '','') # ?tail))
              = Some (snd kv, U (CHR '','') # ?tail)"
    using cons(3)[OF _ ev] cons(4) by (simp del: of_char_Char add: skip_ws_stringify)
  have len: "length (U (CHR '','') # ?tail)
               < length (quote (fst kv) @ U (CHR '':'') # JSON_stringify (snd kv) @ U (CHR '','') # ?tail)"
    by (simp del: of_char_Char)
  obtain kv' kvs' where kvs: "kvs = kv' # kvs'" using cons(1) by (cases kvs) auto
  have tl: "skip_ws ?tail = ?tail"
    using kvs skip_ws_member[of kv'] by (cases kvs') (simp_all del: of_char_Char)
  have ih: "parse_members ?tail = Some (kvs, rest)"
    using cons(2) cons(3) cons(4) by (simp del: of_char_Char)
  have js: "join_commas (map member_text (kv # kvs)) @ U (CHR ''}'') # rest
              = quote (fst kv) @ U (CHR '':'') # JSON_stringify (snd kv) @ U (CHR '','') # ?tail"
    using kvs by (simp del: of_char_Char add: member_text_def)
  show ?case
    unfolding js using parse_members_step[OF pv len]
    by (simp del: of_char_Char add: skip_ws_ends[OF ev] expect_def tl ih)
qed

lemma stringify_object:
  "JSON_stringify (JObject kvs) = U (CHR ''{'') # join_commas (map member_text kvs) @ js ''}''"
  by (simp del: of_char_Char add: member_text_def[abs_def])

lemma parse_value_stringify:
  "wf_json v \<Longrightarrow> ends_value rest \<Longrightarrow> parse_value (JSON_stringify v @ rest) = Some (v, rest)"
proof (induction v arbitrary: rest)
  case JNull
  then show ?case by (simp del: of_char_Char)
next
  case (JBool b)
  then show ?case by (simp del: of_char_Char)
next
  case (JNumber lit)
  then have sn: "scan_number lit = Some (lit, [])" by (simp del: of_char_Char)
  have app: "scan_number (lit @ rest) = Some (lit, rest)"
    using scan_number_append[OF sn] ends_value_number[OF JNumber(2)] by (simp del: of_char_Char)
  obtain c cs where lit: "lit = c # cs" and c: "c = U (CHR ''-'') \<or> is_digit c"
    using scan_number_start[OF sn] by (cases lit) auto
  have "parse_value ((c # cs) @ rest) = Some (JNumber (c # cs), rest)"
    using app c unfolding lit by (auto simp: is_digit_def)
  then show ?case by (simp del: of_char_Char add: lit)
next
  case (JString s)
  then show ?case by (simp del: of_char_Char add: quote_def parse_chars_quote_body)
next
  case (JArray vs)
  show ?case
  proof (cases vs)
    case Nil
    then show ?thesis by (simp add: skip_ws_def is_ws_def expect_def)
  next
    case (Cons v' vs')
    obtain c cs where st: "JSON_stringify v' = c # cs" and vs: "value_start c"
      using stringify_start[of v'] JArray(2) Cons by auto
    let ?body = "join_commas (map JSON_stringify vs) @ U (CHR '']'') # rest"
    have bc: "\<exists>bs. ?body = c # bs" using Cons st by (cases vs') (simp_all del: of_char_Char)
    then obtain bs where body: "?body = c # bs" by blast
    have pe: "parse_elems ?body = Some (vs, rest)"
    proof (rule parse_elems_join)
      show "vs \<noteq> []" using Cons by (simp del: of_char_Char)
    next
      fix v r assume v: "v \<in> set vs" and ev: "ends_value r"
      have "wf_json v" using JArray(2) v by (simp del: of_char_Char add: list_all_iff)
      then show "parse_value (JSON_stringify v @ r) = Some (v, r)"
        using JArray(1)[OF v _ ev] by (simp del: of_char_Char)
    next
      fix v assume "v \<in> set vs"
      then show "wf_json v" using JArray(2) by (simp del: of_char_Char add: list_all_iff)
    qed
    have "parse_value (U (CHR ''['') # ?body) = Some (JArray vs, rest)"
      using pe expect_start[OF vs, of bs] skip_ws_start[OF vs, of bs] unfolding body by (simp del: of_char_Char)
    then show ?thesis by (simp del: of_char_Char)
  qed
next
  case (JObject kvs)
  show ?case
  proof (cases kvs)
    case Nil
    then show ?thesis by (simp add: skip_ws_def is_ws_def expect_def)
  next
    case (Cons kv' kvs')
    let ?body = "join_commas (map member_text kvs) @ U (CHR ''}'') # rest"
    have bc: "\<exists>bs. ?body = U (CHR 0x22) # bs"
      using Cons member_text_start[of kv'] by (cases kvs') auto
    then obtain bs where body: "?body = U (CHR 0x22) # bs" by blast
    have sk: "skip_ws (U (CHR 0x22) # bs) = U (CHR 0x22) # bs" by (simp add: skip_ws_def is_ws_def)
    have pm: "parse_members ?body = Some (kvs, rest)"
    proof (rule parse_members_join)
      show "kvs \<noteq> []" using Cons by (simp del: of_char_Char)
    next
      fix kv rest' assume kv: "kv \<in> set kvs" and ev: "ends_value rest'"
      have "snd kv \<in> Basic_BNFs.snds kv" by (cases kv) simp
      moreover have "wf_json (snd kv)" using JObject(2) kv by (simp del: of_char_Char add: list_all_iff)
      ultimately show "parse_value (JSON_stringify (snd kv) @ rest') = Some (snd kv, rest')"
        using JObject(1)[OF kv _ _ ev] by (simp del: of_char_Char)
    next
      fix kv assume "kv \<in> set kvs"
      then show "wf_json (snd kv)" using JObject(2) by (simp del: of_char_Char add: list_all_iff)
    qed
    have dd: "foldl (\<lambda>acc kv. AList.update (fst kv) (snd kv) acc) [] kvs = kvs"
      using dedup_distinct[of "[]" kvs] JObject(2) by (simp del: of_char_Char)
    have "parse_value (U (CHR ''{'') # ?body) = Some (JObject kvs, rest)"
      using pm dd unfolding body by (simp del: of_char_Char add: sk expect_def)
    then show ?thesis by (simp del: of_char_Char add: stringify_object del: JSON_stringify.simps)
  qed
qed

lemma JSON_parse_stringify: "wf_json v \<Longrightarrow> JSON_parse (JSON_stringify v) = Some v"
proof -
  assume wf: "wf_json v"
  obtain c cs where st: "JSON_stringify v = c # cs" and vs: "value_start c"
    using stringify_start[OF wf] by auto
  have "parse_value (JSON_stringify v @ []) = Some (v, [])"
    using parse_value_stringify[OF wf, of "[]"] by (simp del: of_char_Char add: ends_value_def)
  then show ?thesis
    using skip_ws_start[OF vs, of cs] st by (simp del: of_char_Char add: JSON_parse_def skip_ws_def)
qed

section \<open>Line buffering\<close>

text \<open>
  Splitting the text piece by piece, with the unfinished line carried over in the buffer,
  processes the same lines as splitting the whole text at once.
\<close>

lemma split_on_nonempty: "split_on sep s \<noteq> []"
  by (induction s) (auto split: list.splits)

lemma split_on_append:
  "split_on sep (a @ b) =
     butlast (split_on sep a) @ split_on sep (last (split_on sep a) @ b)"
proof (induction a)
  case Nil
  then show ?case by simp
next
  case (Cons c a)
  show ?case
  proof (cases "c = sep")
    case True
    then show ?thesis using Cons split_on_nonempty[of sep a] by simp
  next
    case False
    obtain l ls where sa: "split_on sep a = l # ls"
      using split_on_nonempty[of sep a] by (cases "split_on sep a") auto
    show ?thesis
    proof (cases ls)
      case Nil
      then show ?thesis using False sa Cons
        by (auto split: list.splits simp: split_on_nonempty)
    next
      case (Cons l' ls')
      then show ?thesis using False sa Cons.IH
        by (auto split: list.splits simp: split_on_nonempty)
    qed
  qed
qed

lemma split_on_no_sep: "sep \<notin> set s \<Longrightarrow> split_on sep s = [s]"
  by (induction s) auto

lemma last_split_on_no_sep: "sep \<notin> set (last (split_on sep s))"
  by (induction s) (auto split: list.splits simp: split_on_nonempty)



lemma processLines_append:
  "processLines parse st (xs @ ys) =
     (case processLines parse st xs of
        (st', True) \<Rightarrow> (st', True)
      | (st', False) \<Rightarrow> processLines parse st' ys)"
  by (induction xs arbitrary: st) (auto split: prod.splits bool.splits)

lemma readLoop_processLines:
  "0x0A \<notin> set buffer \<Longrightarrow>
   readLoop parse st buffer pieces =
     processLines parse st (butlast (split_on 0x0A (buffer @ concat pieces)))"
proof (induction pieces arbitrary: st buffer)
  case Nil
  then show ?case by (simp add: split_on_no_sep)
next
  case (Cons p ps)
  let ?nl = "0x0A :: code_unit"
  have "split_on ?nl (buffer @ concat (p # ps)) =
        butlast (split_on ?nl (buffer @ p))
          @ split_on ?nl (last (split_on ?nl (buffer @ p)) @ concat ps)"
    using split_on_append[of ?nl "buffer @ p" "concat ps"] by simp
  then have "butlast (split_on ?nl (buffer @ concat (p # ps))) =
        butlast (split_on ?nl (buffer @ p))
          @ butlast (split_on ?nl (last (split_on ?nl (buffer @ p)) @ concat ps))"
    by (simp add: butlast_append split_on_nonempty)
  then show ?case using Cons.IH[OF last_split_on_no_sep]
    by (simp add: processLines_append Let_def split: prod.splits bool.splits)
qed

lemma chatCompletionStream_lines:
  "chatCompletionStream parse pieces =
     (case processLines parse initial_state (complete_lines pieces) of
        (st, True) \<Rightarrow> st
      | (st, False) \<Rightarrow> emitToolCalls st)"
  by (simp add: chatCompletionStream_def complete_lines_def readLoop_processLines)

section \<open>What the loop yields\<close>

lemma yielded_openCall [simp]: "yielded (openCall st d) = yielded st"
  by (simp add: openCall_def)

lemma yielded_appendFragments [simp]: "yielded (appendFragments st d) = yielded st"
  by (simp add: appendFragments_def split: option.splits)

lemma yielded_applyToolCallDelta [simp]: "yielded (applyToolCallDelta st d) = yielded st"
  by (simp add: applyToolCallDelta_def)

lemma yielded_applyToolCallDeltas [simp]:
  "yielded (fst (applyToolCallDeltas st ds)) = yielded st"
  by (induction ds arbitrary: st) simp_all

lemma yielded_applyDelta:
  "yielded (fst (applyDelta st d)) = yielded st @ map Text (delta_texts [d])"
proof (cases "delta_tool_calls d")
  case None
  then show ?thesis by (simp add: applyDelta_def yieldContent_def delta_texts_def)
next
  case (Some tcs)
  obtain st' thrown where r: "applyToolCallDeltas (yieldContent st d) tcs = (st', thrown)"
    by (cases "applyToolCallDeltas (yieldContent st d) tcs") auto
  have "yielded st' = yielded (yieldContent st d)"
    using yielded_applyToolCallDeltas[of "yieldContent st d" tcs] r by simp
  then show ?thesis
    using Some r by (simp add: applyDelta_def yieldContent_def delta_texts_def)
qed

lemma processLine_done:
  "is_done line \<Longrightarrow> processLine parse st line = (emitToolCalls st, True)"
  by (simp add: processLine_def is_done_def Let_def)

lemma processLine_not_done:
  "\<not> is_done line \<Longrightarrow> snd (processLine parse st line) = False"
  by (auto simp add: processLine_def is_done_def Let_def split: option.splits prod.splits)

lemma yielded_processLine_not_done:
  "\<not> is_done line \<Longrightarrow>
   yielded (fst (processLine parse st line)) =
     yielded st @ map Text (delta_texts (List.map_filter (line_delta parse) [line]))"
proof -
  assume nd: "\<not> is_done line"
  show ?thesis
  proof (cases "line_delta parse line")
    case None
    then show ?thesis using nd
      by (auto simp add: processLine_def is_done_def Let_def line_delta_def List.map_filter_def
          applyChunk_def delta_texts_def split: option.splits if_splits)
  next
    case (Some d)
    then obtain chunk where p: "prefix (js ''data: '') (trim line)"
      and c: "parse (drop 6 (trim line)) = Some chunk" and f: "firstDelta chunk = Some d"
      by (auto simp: line_delta_def split: if_splits option.splits)
    have "yielded (fst (applyChunk st chunk)) = yielded st @ map Text (delta_texts [d])"
      using f by (simp add: applyChunk_def yielded_applyDelta)
    then show ?thesis using nd p c Some
      by (auto simp add: processLine_def is_done_def Let_def List.map_filter_def
          split: prod.splits)
  qed
qed

lemma yielded_emitToolCalls:
  "yielded (emitToolCalls st) = yielded st @ batch_of (emitToolCalls st)"
  by (simp add: emitToolCalls_def batch_of_def Let_def)

lemma yielded_processLines:
  "processLines parse st ls = (st', fin) \<Longrightarrow>
   yielded st' = yielded st
       @ map Text (delta_texts (List.map_filter (line_delta parse) (takeWhile (\<lambda>l. \<not> is_done l) ls)))
       @ (if fin then batch_of st' else [])"
proof (induction ls arbitrary: st)
  case Nil
  then show ?case by (auto simp: delta_texts_def List.map_filter_def)
next
  case (Cons l ls)
  show ?case
  proof (cases "is_done l")
    case True
    then show ?thesis using Cons.prems
      by (auto simp: processLine_done delta_texts_def List.map_filter_def yielded_emitToolCalls)
  next
    case False
    obtain st1 where p1: "processLine parse st l = (st1, False)"
      using processLine_not_done[OF False, of parse st] by (cases "processLine parse st l") auto
    then have rest: "processLines parse st1 ls = (st', fin)" using Cons.prems by simp
    have y1: "yielded st1 = yielded st @ map Text (delta_texts (List.map_filter (line_delta parse) [l]))"
      using yielded_processLine_not_done[OF False, of parse st] p1 by simp
    show ?thesis
      using Cons.IH[OF rest] y1 False
      by (auto simp: delta_texts_def List.map_filter_def split: option.splits)
  qed
qed

lemma yielded_chatCompletionStream:
  "yielded (chatCompletionStream parse pieces) =
     map Text (delta_texts (decoded_deltas parse pieces))
       @ batch_of (chatCompletionStream parse pieces)"
proof -
  obtain st fin where r: "processLines parse initial_state (complete_lines pieces) = (st, fin)"
    by (cases "processLines parse initial_state (complete_lines pieces)") auto
  have y: "yielded st = map Text (delta_texts (decoded_deltas parse pieces))
                          @ (if fin then batch_of st else [])"
    using yielded_processLines[OF r] by (simp add: initial_state_def decoded_deltas_def)
  show ?thesis
  proof (cases fin)
    case True
    then show ?thesis using r y by (simp add: chatCompletionStream_lines)
  next
    case False
    then show ?thesis using r y by (simp add: chatCompletionStream_lines yielded_emitToolCalls)
  qed
qed

section \<open>Every call that is kept has an id\<close>

lemma ids_ok_initial: "ids_ok initial_state"
  by (simp add: ids_ok_def initial_state_def)

lemma ids_ok_applyToolCallDelta: "ids_ok st \<Longrightarrow> ids_ok (applyToolCallDelta st d)"
  by (cases "tcd_id d")
     (auto simp: ids_ok_def applyToolCallDelta_def appendFragments_def openCall_def opensCall_def
        pushCurrent_def split: option.splits)

lemma ids_ok_applyToolCallDeltas: "ids_ok st \<Longrightarrow> ids_ok (fst (applyToolCallDeltas st ds))"
  by (induction ds arbitrary: st) (simp_all add: ids_ok_applyToolCallDelta)

lemma ids_ok_yieldContent: "ids_ok st \<Longrightarrow> ids_ok (yieldContent st d)"
  by (simp add: ids_ok_def yieldContent_def)

lemma ids_ok_applyChunk: "ids_ok st \<Longrightarrow> ids_ok (fst (applyChunk st chunk))"
  using ids_ok_applyToolCallDeltas[OF ids_ok_yieldContent]
  by (auto simp add: applyChunk_def applyDelta_def ids_ok_yieldContent
        split: option.splits prod.splits dest: )
     (metis fst_conv)

lemma ids_ok_warn: "ids_ok st \<Longrightarrow> ids_ok (st\<lparr>warnings := n\<rparr>)"
  by (simp add: ids_ok_def)

lemma ids_ok_emitToolCalls: "ids_ok st \<Longrightarrow> ids_ok (emitToolCalls st)"
  by (auto simp: ids_ok_def emitToolCalls_def pushCurrent_def Let_def split: option.splits)

lemma ids_ok_processLine: "ids_ok st \<Longrightarrow> ids_ok (fst (processLine parse st line))"
proof -
  assume ok: "ids_ok st"
  have c: "ids_ok (fst (applyChunk st chunk))" for chunk
    using ok by (rule ids_ok_applyChunk)
  show ?thesis
    using ok c
    by (auto simp: processLine_def Let_def ids_ok_emitToolCalls ids_ok_warn
          split: option.splits prod.splits)
       (metis fst_conv ids_ok_warn)+
qed

lemma ids_ok_processLines: "ids_ok st \<Longrightarrow> ids_ok (fst (processLines parse st ls))"
proof (induction ls arbitrary: st)
  case Nil
  then show ?case by simp
next
  case (Cons l ls)
  then show ?case
    using ids_ok_processLine[of st parse l]
    by (cases "processLine parse st l") (auto split: bool.splits)
qed

lemma ids_ok_chatCompletionStream: "ids_ok (chatCompletionStream parse pieces)"
  using ids_ok_processLines[OF ids_ok_initial, of parse "complete_lines pieces"]
  by (cases "processLines parse initial_state (complete_lines pieces)")
     (auto simp: chatCompletionStream_lines ids_ok_emitToolCalls split: bool.splits)

section \<open>A warning more or less changes nothing else\<close>














lemma processLines_not_done:
  "\<not> list_ex is_done ls \<Longrightarrow> snd (processLines parse st ls) = False"
proof (induction ls arbitrary: st)
  case Nil
  then show ?case by simp
next
  case (Cons l ls)
  then have nd: "\<not> is_done l" by simp
  obtain st1 where p: "processLine parse st l = (st1, False)"
    using processLine_not_done[OF nd, of parse st] by (cases "processLine parse st l") auto
  show ?case using Cons p by simp
qed




lemma complete_lines_concat: "complete_lines pieces = complete_lines [concat pieces]"
  by (simp add: complete_lines_def)

section \<open>The accumulated calls are the assembled fragments\<close>

text \<open>
  The loop over the tool-call deltas of a chunk is the loop body applied to the deltas it
  runs on.
\<close>

lemma current_openCall:
  "currentToolCall (openCall st d) \<noteq> None \<longleftrightarrow> currentToolCall st \<noteq> None \<or> opensCall d"
  by (simp add: openCall_def)

lemma current_applyToolCallDelta:
  "currentToolCall (applyToolCallDelta st d) \<noteq> None \<longleftrightarrow> currentToolCall st \<noteq> None \<or> opensCall d"
  by (auto simp: applyToolCallDelta_def appendFragments_def openCall_def split: option.splits)

lemma current_foldl:
  "currentToolCall (foldl applyToolCallDelta st ds) \<noteq> None
     \<longleftrightarrow> currentToolCall st \<noteq> None \<or> list_ex opensCall ds"
proof (induction ds arbitrary: st)
  case Nil
  then show ?case by simp
next
  case (Cons d ds)
  show ?case
    using Cons[of "applyToolCallDelta st d"] current_applyToolCallDelta[of st d] by auto
qed

lemma applyToolCallDeltas_run:
  "fst (applyToolCallDeltas st ds) =
     foldl applyToolCallDelta st (run_deltas (currentToolCall st \<noteq> None) ds)"
proof (induction ds arbitrary: st)
  case Nil
  then show ?case by simp
next
  case (Cons d ds)
  show ?case
    using Cons[of "applyToolCallDelta st d"] current_openCall[of st d]
      current_applyToolCallDelta[of st d]
    by (cases "currentToolCall (openCall st d) \<noteq> None \<and> fragmentsThrow d") auto
qed

text \<open>
  The open call and the completed calls after a step depend on the open call and the
  completed calls before it, and on nothing else.
\<close>

lemma calls_applyToolCallDelta:
  assumes "currentToolCall st = currentToolCall st'"
    and "toolCallAccumulator st = toolCallAccumulator st'"
  shows "currentToolCall (applyToolCallDelta st d) = currentToolCall (applyToolCallDelta st' d)
       \<and> toolCallAccumulator (applyToolCallDelta st d) = toolCallAccumulator (applyToolCallDelta st' d)"
  using assms
  by (auto simp: applyToolCallDelta_def appendFragments_def openCall_def pushCurrent_def
        split: option.splits)

lemma calls_foldl:
  assumes "currentToolCall st = currentToolCall st'"
    and "toolCallAccumulator st = toolCallAccumulator st'"
  shows "currentToolCall (foldl applyToolCallDelta st ds) = currentToolCall (foldl applyToolCallDelta st' ds)
       \<and> toolCallAccumulator (foldl applyToolCallDelta st ds)
           = toolCallAccumulator (foldl applyToolCallDelta st' ds)"
  using assms
proof (induction ds arbitrary: st st')
  case Nil
  then show ?case by simp
next
  case (Cons d ds)
  show ?case
    using Cons.IH[of "applyToolCallDelta st d" "applyToolCallDelta st' d"]
      calls_applyToolCallDelta[OF Cons.prems, of d]
    by simp
qed

lemma calls_applyChunk:
  "currentToolCall (fst (applyChunk st chunk)) =
     currentToolCall (foldl applyToolCallDelta st
       (applied_deltas (currentToolCall st \<noteq> None) (case firstDelta chunk of None \<Rightarrow> [] | Some d \<Rightarrow> [d])))
   \<and> toolCallAccumulator (fst (applyChunk st chunk)) =
     toolCallAccumulator (foldl applyToolCallDelta st
       (applied_deltas (currentToolCall st \<noteq> None) (case firstDelta chunk of None \<Rightarrow> [] | Some d \<Rightarrow> [d])))"
proof (cases "firstDelta chunk")
  case None
  then show ?thesis by (simp add: applyChunk_def)
next
  case (Some d)
  show ?thesis
  proof (cases "delta_tool_calls d")
    case None
    then show ?thesis using Some by (simp add: applyChunk_def applyDelta_def yieldContent_def)
  next
    case tcs: (Some tcs)
    have c: "currentToolCall (yieldContent st d) = currentToolCall st"
      and a: "toolCallAccumulator (yieldContent st d) = toolCallAccumulator st"
      by (simp_all add: yieldContent_def)
    have "fst (applyChunk st chunk) = fst (applyToolCallDeltas (yieldContent st d) tcs)"
      using Some tcs by (simp add: applyChunk_def applyDelta_def split: prod.splits)
    also have "\<dots> = foldl applyToolCallDelta (yieldContent st d)
                       (run_deltas (currentToolCall st \<noteq> None) tcs)"
      using applyToolCallDeltas_run[of "yieldContent st d" tcs] c by simp
    finally show ?thesis
      using calls_foldl[OF c a, of "run_deltas (currentToolCall st \<noteq> None) tcs"] Some tcs
      by simp
  qed
qed

lemma calls_processLine:
  assumes "\<not> is_done line"
  shows "currentToolCall (fst (processLine parse st line)) =
     currentToolCall (foldl applyToolCallDelta st
       (applied_deltas (currentToolCall st \<noteq> None) (List.map_filter (line_delta parse) [line])))
   \<and> toolCallAccumulator (fst (processLine parse st line)) =
     toolCallAccumulator (foldl applyToolCallDelta st
       (applied_deltas (currentToolCall st \<noteq> None) (List.map_filter (line_delta parse) [line])))"
proof (cases "prefix (js ''data: '') (trim line)")
  case False
  then show ?thesis by (simp add: processLine_def line_delta_def List.map_filter_def Let_def)
next
  case True
  show ?thesis
  proof (cases "parse (drop 6 (trim line))")
    case None
    then show ?thesis using True assms
      by (simp add: processLine_def line_delta_def List.map_filter_def Let_def is_done_def)
  next
    case (Some chunk)
    have ld: "List.map_filter (line_delta parse) [line]
                = (case firstDelta chunk of None \<Rightarrow> [] | Some d \<Rightarrow> [d])"
      using True Some by (simp add: line_delta_def List.map_filter_def split: option.splits)
    have "currentToolCall (fst (processLine parse st line)) = currentToolCall (fst (applyChunk st chunk))
        \<and> toolCallAccumulator (fst (processLine parse st line))
            = toolCallAccumulator (fst (applyChunk st chunk))"
      using True Some assms
      by (simp add: processLine_def Let_def is_done_def split: prod.splits)
    then show ?thesis using calls_applyChunk[of st chunk] ld by simp
  qed
qed

lemma applied_deltas_append:
  "applied_deltas opened (xs @ ys) =
     applied_deltas opened xs
       @ applied_deltas (opened \<or> list_ex opensCall (applied_deltas opened xs)) ys"
  by (induction xs arbitrary: opened) (auto simp: Let_def)

lemma calls_processLines:
  assumes "\<not> list_ex is_done ls"
  shows "currentToolCall (fst (processLines parse st ls)) =
     currentToolCall (foldl applyToolCallDelta st
       (applied_deltas (currentToolCall st \<noteq> None) (List.map_filter (line_delta parse) ls)))
   \<and> toolCallAccumulator (fst (processLines parse st ls)) =
     toolCallAccumulator (foldl applyToolCallDelta st
       (applied_deltas (currentToolCall st \<noteq> None) (List.map_filter (line_delta parse) ls)))"
  using assms
proof (induction ls arbitrary: st)
  case Nil
  then show ?case by (simp add: List.map_filter_def)
next
  case (Cons l ls)
  then have nd: "\<not> is_done l" and nds: "\<not> list_ex is_done ls" by simp_all
  obtain st1 where p: "processLine parse st l = (st1, False)"
    using processLine_not_done[OF nd, of parse st] by (cases "processLine parse st l") auto
  let ?a = "applied_deltas (currentToolCall st \<noteq> None) (List.map_filter (line_delta parse) [l])"
  let ?st1' = "foldl applyToolCallDelta st ?a"
  have c1: "currentToolCall st1 = currentToolCall ?st1'"
    and a1: "toolCallAccumulator st1 = toolCallAccumulator ?st1'"
    using calls_processLine[OF nd, of parse st] p by simp_all
  have o1: "(currentToolCall st1 \<noteq> None) = (currentToolCall st \<noteq> None \<or> list_ex opensCall ?a)"
    using c1 current_foldl[of st ?a] by simp
  let ?b = "applied_deltas (currentToolCall st1 \<noteq> None) (List.map_filter (line_delta parse) ls)"
  have split: "applied_deltas (currentToolCall st \<noteq> None) (List.map_filter (line_delta parse) (l # ls))
                 = ?a @ ?b"
    using applied_deltas_append[of "currentToolCall st \<noteq> None" "List.map_filter (line_delta parse) [l]"
        "List.map_filter (line_delta parse) ls"] o1
    by (simp add: List.map_filter_def)
  have ih: "currentToolCall (fst (processLines parse st1 ls)) = currentToolCall (foldl applyToolCallDelta st1 ?b)
          \<and> toolCallAccumulator (fst (processLines parse st1 ls))
              = toolCallAccumulator (foldl applyToolCallDelta st1 ?b)"
    using Cons.IH[OF nds, of st1] .
  have "processLines parse st (l # ls) = processLines parse st1 ls" using p by simp
  then show ?case
    using ih calls_foldl[OF c1 a1, of ?b] unfolding split by simp
qed

text \<open>
  The calls kept in a state: the completed calls followed by the open call. A call that
  gets more fragments.
\<close>

lemma pushCurrent_ids_ok:
  "ids_ok st \<Longrightarrow>
   pushCurrent st = toolCallAccumulator st @ (case currentToolCall st of None \<Rightarrow> [] | Some c \<Rightarrow> [c])"
  by (auto simp: pushCurrent_def ids_ok_def split: option.splits)

lemma foldl_assembled:
  assumes "ids_ok st" and "currentToolCall st = None \<longrightarrow> toolCallAccumulator st = []"
  shows "pushCurrent (foldl applyToolCallDelta st ds) =
     (case currentToolCall st of
        None \<Rightarrow> assembled ds
      | Some c \<Rightarrow>
          toolCallAccumulator st
            @ c\<lparr>tc_name := tc_name c @ concat (map fragmentName (takeWhile (\<lambda>e. \<not> opensCall e) ds)),
                 tc_arguments := tc_arguments c
                    @ concat (map fragmentArguments (takeWhile (\<lambda>e. \<not> opensCall e) ds))\<rparr>
            # assembled ds)"
  using assms
proof (induction ds arbitrary: st)
  case Nil
  then show ?case by (simp add: pushCurrent_ids_ok split: option.splits)
next
  case (Cons d ds)
  let ?st' = "applyToolCallDelta st d"
  have ok': "ids_ok ?st'" using Cons.prems(1) by (rule ids_ok_applyToolCallDelta)
  show ?case
  proof (cases "opensCall d")
    case True
    have cur: "currentToolCall ?st' =
        Some \<lparr>tc_id = fragment (tcd_id d), tc_name = fragmentName d, tc_arguments = fragmentArguments d\<rparr>"
      using True by (simp add: applyToolCallDelta_def openCall_def appendFragments_def)
    have acc: "toolCallAccumulator ?st' = pushCurrent st"
      using True by (simp add: applyToolCallDelta_def openCall_def appendFragments_def)
    have inv': "currentToolCall ?st' = None \<longrightarrow> toolCallAccumulator ?st' = []"
      using cur by simp
    have ih: "pushCurrent (foldl applyToolCallDelta ?st' ds) =
        pushCurrent st
          @ \<lparr>tc_id = fragment (tcd_id d),
              tc_name = fragmentName d @ concat (map fragmentName (takeWhile (\<lambda>e. \<not> opensCall e) ds)),
              tc_arguments = fragmentArguments d
                 @ concat (map fragmentArguments (takeWhile (\<lambda>e. \<not> opensCall e) ds))\<rparr>
          # assembled ds"
      using Cons.IH[OF ok' inv'] cur acc by simp
    show ?thesis
      using ih True Cons.prems pushCurrent_ids_ok[OF Cons.prems(1)]
      by (simp split: option.splits)
  next
    case False
    show ?thesis
    proof (cases "currentToolCall st")
      case None
      then have same: "?st' = st"
        using False by (simp add: applyToolCallDelta_def openCall_def appendFragments_def)
      show ?thesis using Cons.IH[OF Cons.prems] None False same by simp
    next
      case (Some c)
      have cur: "currentToolCall ?st' =
          Some (c\<lparr>tc_name := tc_name c @ fragmentName d,
                   tc_arguments := tc_arguments c @ fragmentArguments d\<rparr>)"
        using False Some by (simp add: applyToolCallDelta_def openCall_def appendFragments_def)
      have acc: "toolCallAccumulator ?st' = toolCallAccumulator st"
        using False Some by (simp add: applyToolCallDelta_def openCall_def appendFragments_def)
      have inv': "currentToolCall ?st' = None \<longrightarrow> toolCallAccumulator ?st' = []"
        using cur by simp
      show ?thesis
        using Cons.IH[OF ok' inv'] cur acc Some False by simp
    qed
  qed
qed

text \<open>The lines after the terminal marker are not processed.\<close>

lemma processLines_upto_done:
  "list_ex is_done ls \<Longrightarrow>
   processLines parse st ls =
     (emitToolCalls (fst (processLines parse st (takeWhile (\<lambda>l. \<not> is_done l) ls))), True)"
proof (induction ls arbitrary: st)
  case Nil
  then show ?case by simp
next
  case (Cons l ls)
  show ?case
  proof (cases "is_done l")
    case True
    then show ?thesis by (simp add: processLine_done)
  next
    case False
    then have ex: "list_ex is_done ls" using Cons.prems by simp
    obtain st1 where p: "processLine parse st l = (st1, False)"
      using processLine_not_done[OF False, of parse st] by (cases "processLine parse st l") auto
    show ?thesis using Cons.IH[OF ex, of st1] p False by simp
  qed
qed

lemma toolCallAccumulator_emitToolCalls: "toolCallAccumulator (emitToolCalls st) = pushCurrent st"
  by (simp add: emitToolCalls_def Let_def)

lemma pushCurrent_cong:
  assumes "currentToolCall st = currentToolCall st'"
    and "toolCallAccumulator st = toolCallAccumulator st'"
  shows "pushCurrent st = pushCurrent st'"
  unfolding pushCurrent_def assms ..

lemma chatCompletionStream_closed:
  "chatCompletionStream parse pieces =
     emitToolCalls (fst (processLines parse initial_state
                          (takeWhile (\<lambda>l. \<not> is_done l) (complete_lines pieces))))"
proof (cases "list_ex is_done (complete_lines pieces)")
  case True
  then show ?thesis
    using processLines_upto_done[OF True, of parse initial_state]
    by (simp add: chatCompletionStream_lines)
next
  case False
  then have all: "takeWhile (\<lambda>l. \<not> is_done l) (complete_lines pieces) = complete_lines pieces"
    by (auto simp: list_ex_iff takeWhile_eq_all_conv)
  have "snd (processLines parse initial_state (complete_lines pieces)) = False"
    using False by (rule processLines_not_done)
  then show ?thesis
    by (cases "processLines parse initial_state (complete_lines pieces)")
       (simp add: chatCompletionStream_lines all)
qed

lemma accumulator_chatCompletionStream:
  "toolCallAccumulator (chatCompletionStream parse pieces) =
     assembled (applied_deltas False (decoded_deltas parse pieces))"
proof -
  let ?pre = "takeWhile (\<lambda>l. \<not> is_done l) (complete_lines pieces)"
  let ?st = "fst (processLines parse initial_state ?pre)"
  let ?ds = "applied_deltas False (decoded_deltas parse pieces)"
  have nd: "\<not> list_ex is_done ?pre"
    by (auto simp: list_ex_iff dest: set_takeWhileD)
  have c: "currentToolCall ?st = currentToolCall (foldl applyToolCallDelta initial_state ?ds)"
    and a: "toolCallAccumulator ?st = toolCallAccumulator (foldl applyToolCallDelta initial_state ?ds)"
    using calls_processLines[OF nd, of parse initial_state]
    by (simp_all add: decoded_deltas_def initial_state_def)
  have "toolCallAccumulator (chatCompletionStream parse pieces) = pushCurrent ?st"
    by (simp add: chatCompletionStream_closed toolCallAccumulator_emitToolCalls)
  also have "\<dots> = pushCurrent (foldl applyToolCallDelta initial_state ?ds)"
    using c a by (rule pushCurrent_cong)
  also have "\<dots> = assembled ?ds"
    using foldl_assembled[OF ids_ok_initial, of ?ds] by (simp add: initial_state_def)
  finally show ?thesis .
qed

section \<open>The display name and the token estimate\<close>

lemma strip_gguf_subset: "set (strip_gguf s) \<subseteq> set s"
  by (auto simp: strip_gguf_def dest: in_set_takeD)

lemma brand_model_match_eq: "brand_model_match s = Some m \<Longrightarrow> m = s"
  by (auto simp: brand_model_match_def split: if_splits)

lemma extractModelName_eq:
  "extractModelName p = strip_gguf (last (split_on (U (CHR ''/'')) p))"
  by (auto simp: extractModelName_def Let_def split: option.splits dest: brand_model_match_eq)

lemma extractModelName_no_slash: "U (CHR ''/'') \<notin> set (extractModelName p)"
  using strip_gguf_subset[of "last (split_on (U (CHR ''/'')) p)"]
    last_split_on_no_sep[of "U (CHR ''/'')" p]
  by (auto simp: extractModelName_eq)

lemma suffix_strip_gguf:
  "suffix (js ''.gguf'') (strip_gguf s) \<longleftrightarrow> suffix (js ''.gguf.gguf'') s"
proof (cases "suffix (js ''.gguf'') s")
  case True
  then obtain t where s: "s = t @ js ''.gguf''" by (auto simp: suffix_def)
  have "strip_gguf s = t" using True s by (simp add: strip_gguf_def)
  moreover have "suffix (js ''.gguf.gguf'') (t @ js ''.gguf'') \<longleftrightarrow> suffix (js ''.gguf'') t"
    using same_suffix_suffix[of "js ''.gguf''" "js ''.gguf''" t] by simp
  ultimately show ?thesis using s by simp
next
  case False
  moreover have "\<not> suffix (js ''.gguf.gguf'') s"
    using False suffix_order.trans[of "js ''.gguf''" "js ''.gguf.gguf''" s]
    by (auto simp: suffix_def)
  ultimately show ?thesis by (simp add: strip_gguf_def)
qed

lemma ceil_quarter: "nat \<lceil>real n / 4\<rceil> = (n + 3) div 4"
  by linarith

lemma length_join_spaces:
  "length (join_spaces xs) = sum_list (map length xs) + (length xs - 1)"
  by (induction xs rule: join_spaces.induct) auto

lemma length_item_text: "length (item_text i) + 1 = counted_characters_item i"
  by (cases i rule: item_text.cases)
     (auto simp: parts_characters_def length_join_spaces comp_def)

lemma length_foldl_items:
  "length (foldl (\<lambda>acc item. acc @ item_text item @ [x]) a items) =
     length a + sum_list (map counted_characters_item items)"
  by (induction items arbitrary: a) (auto simp: length_item_text[symmetric])

lemma length_contentText: "length (contentText c) = counted_characters c"
  by (simp add: contentText_def counted_characters_def length_foldl_items)

section \<open>Properties of the streaming client\<close>

text \<open>
  C1. Streaming reconstruction. The server sends six lines: a tool-call delta with index 0,
  id \<^verbatim>\<open>a\<close> and function name \<^verbatim>\<open>f\<close>; the arguments fragments \<^verbatim>\<open>{"x":\<close> and \<^verbatim>\<open>1}\<close>; a
  tool-call delta with index 0, id \<^verbatim>\<open>b\<close> and function name \<^verbatim>\<open>g\<close>; the arguments fragment
  \<^verbatim>\<open>{}\<close>; and the terminal marker. However the transport cuts this text into pieces, the
  generator yields exactly one event, the batch of the two completed calls in that order.
\<close>

theorem streaming_reconstruction:
  assumes \<open>concat pieces = concat (map sse_line
     [JSON_stringify (tool_calls_json
        [JObject [(js ''index'', JNumber (js ''0'')), (js ''id'', JString (js ''a'')),
                  (js ''function'', JObject [(js ''name'', JString (js ''f''))])]]),
      JSON_stringify (tool_calls_json
        [JObject [(js ''function'', JObject [(js ''arguments'', JString (js ''{"x":''))])]]),
      JSON_stringify (tool_calls_json
        [JObject [(js ''function'', JObject [(js ''arguments'', JString (js ''1}''))])]]),
      JSON_stringify (tool_calls_json
        [JObject [(js ''index'', JNumber (js ''0'')), (js ''id'', JString (js ''b'')),
                  (js ''function'', JObject [(js ''name'', JString (js ''g''))])]]),
      JSON_stringify (tool_calls_json
        [JObject [(js ''function'', JObject [(js ''arguments'', JString (js ''{}''))])]]),
      js ''[DONE]''])\<close> (is \<open>_ = ?text\<close>)
  shows \<open>yielded (chatCompletionStream parse_chunk pieces) =
     [ToolCalls [\<lparr>tc_id = js ''a'', tc_name = js ''f'', tc_arguments = js ''{"x":1}''\<rparr>,
                 \<lparr>tc_id = js ''b'', tc_name = js ''g'', tc_arguments = js ''{}''\<rparr>]]\<close>
proof -
  have run: \<open>yielded (case processLines parse_chunk initial_state
                         (butlast (split_on 0x0A ?text)) of
                  (st, True) \<Rightarrow> st
                | (st, False) \<Rightarrow> emitToolCalls st) =
     [ToolCalls [\<lparr>tc_id = js ''a'', tc_name = js ''f'', tc_arguments = js ''{"x":1}''\<rparr>,
                 \<lparr>tc_id = js ''b'', tc_name = js ''g'', tc_arguments = js ''{}''\<rparr>]]\<close>
    by code_simp
  show ?thesis
    unfolding chatCompletionStream_lines complete_lines_def assms by (rule run)
qed

theorem streaming_reconstruction_witness:
  \<open>yielded (chatCompletionStream parse_chunk
     [take 100 (concat (map sse_line
        [JSON_stringify (tool_calls_json
           [JObject [(js ''index'', JNumber (js ''0'')), (js ''id'', JString (js ''a'')),
                     (js ''function'', JObject [(js ''name'', JString (js ''f''))])]]),
         JSON_stringify (tool_calls_json
           [JObject [(js ''function'', JObject [(js ''arguments'', JString (js ''{"x":''))])]]),
         JSON_stringify (tool_calls_json
           [JObject [(js ''function'', JObject [(js ''arguments'', JString (js ''1}''))])]]),
         JSON_stringify (tool_calls_json
           [JObject [(js ''index'', JNumber (js ''0'')), (js ''id'', JString (js ''b'')),
                     (js ''function'', JObject [(js ''name'', JString (js ''g''))])]]),
         JSON_stringify (tool_calls_json
           [JObject [(js ''function'', JObject [(js ''arguments'', JString (js ''{}''))])]]),
         js ''[DONE]''])),
      drop 100 (concat (map sse_line
        [JSON_stringify (tool_calls_json
           [JObject [(js ''index'', JNumber (js ''0'')), (js ''id'', JString (js ''a'')),
                     (js ''function'', JObject [(js ''name'', JString (js ''f''))])]]),
         JSON_stringify (tool_calls_json
           [JObject [(js ''function'', JObject [(js ''arguments'', JString (js ''{"x":''))])]]),
         JSON_stringify (tool_calls_json
           [JObject [(js ''function'', JObject [(js ''arguments'', JString (js ''1}''))])]]),
         JSON_stringify (tool_calls_json
           [JObject [(js ''index'', JNumber (js ''0'')), (js ''id'', JString (js ''b'')),
                     (js ''function'', JObject [(js ''name'', JString (js ''g''))])]]),
         JSON_stringify (tool_calls_json
           [JObject [(js ''function'', JObject [(js ''arguments'', JString (js ''{}''))])]]),
         js ''[DONE]'']))]) =
     [ToolCalls [\<lparr>tc_id = js ''a'', tc_name = js ''f'', tc_arguments = js ''{"x":1}''\<rparr>,
                 \<lparr>tc_id = js ''b'', tc_name = js ''g'', tc_arguments = js ''{}''\<rparr>]]\<close>
  by (rule streaming_reconstruction) (simp only: concat.simps append_Nil2 append_take_drop_id)

text \<open>
  C3. When the read loop ends because the transport closed (no line was the terminal
  marker) and a tool call is still open, the generator's last event is a batch that holds
  the completed calls followed by the open call.
\<close>

theorem open_call_emitted_at_close:
  assumes "readLoop parse initial_state [] pieces = (st, False)"
    and "currentToolCall st = Some tc"
  shows "yielded (chatCompletionStream parse pieces) =
           yielded st @ [ToolCalls (toolCallAccumulator st @ [tc])]"
proof -
  have "ids_ok st"
    using ids_ok_processLines[OF ids_ok_initial, of parse "complete_lines pieces"] assms(1)
    by (simp add: readLoop_processLines complete_lines_def)
  then have "tc_id tc \<noteq> []" using assms(2) by (simp add: ids_ok_def)
  then show ?thesis using assms
    by (simp add: chatCompletionStream_def emitToolCalls_def pushCurrent_def Let_def)
qed

theorem open_call_emitted_at_close_witness:
  \<open>yielded (chatCompletionStream parse_chunk
     [sse_line (JSON_stringify (content_json (js ''Hi''))),
      sse_line (JSON_stringify (tool_calls_json
        [JObject [(js ''index'', JNumber (js ''0'')), (js ''id'', JString (js ''a'')),
                  (js ''function'', JObject [(js ''name'', JString (js ''f'')),
                                          (js ''arguments'', JString (js ''{"x":''))])]]))]) =
     [Text (js ''Hi''), ToolCalls [\<lparr>tc_id = js ''a'', tc_name = js ''f'', tc_arguments = js ''{"x":''\<rparr>]]\<close>
proof -
  let ?pieces = \<open>[sse_line (JSON_stringify (content_json (js ''Hi''))),
      sse_line (JSON_stringify (tool_calls_json
        [JObject [(js ''index'', JNumber (js ''0'')), (js ''id'', JString (js ''a'')),
                  (js ''function'', JObject [(js ''name'', JString (js ''f'')),
                                          (js ''arguments'', JString (js ''{"x":''))])]]))]\<close>
  let ?tc = \<open>\<lparr>tc_id = js ''a'', tc_name = js ''f'', tc_arguments = js ''{"x":''\<rparr>\<close>
  let ?st = \<open>\<lparr>currentToolCall = Some ?tc, toolCallAccumulator = [],
              yielded = [Text (js ''Hi'')], warnings = 0\<rparr>\<close>
  have loop: "readLoop parse_chunk initial_state [] ?pieces = (?st, False)"
    by code_simp
  have cur: "currentToolCall ?st = Some ?tc"
    by simp
  show ?thesis
    using open_call_emitted_at_close[where parse = parse_chunk, OF loop cur] by simp
qed

text \<open>
  C4. The events of one call are the text fragments of the decoded deltas, in decode
  order, followed by at most one batch of tool calls: the batch is the last event and no
  text event follows it.
\<close>

theorem events_in_decode_order:
  "yielded (chatCompletionStream parse pieces) =
     map Text (delta_texts (decoded_deltas parse pieces))
       @ batch_of (chatCompletionStream parse pieces)
   \<and> (batch_of (chatCompletionStream parse pieces) = []
        \<or> (\<exists>tcs. batch_of (chatCompletionStream parse pieces) = [ToolCalls tcs]))"
  using yielded_chatCompletionStream[of parse pieces]
  by (simp add: batch_of_def)

theorem events_in_decode_order_witness:
  \<open>yielded (chatCompletionStream parse_chunk
     [sse_line (JSON_stringify (content_json (js ''Hel''))),
      sse_line (JSON_stringify (tool_calls_json
        [JObject [(js ''index'', JNumber (js ''0'')), (js ''id'', JString (js ''a'')),
                  (js ''function'', JObject [(js ''name'', JString (js ''f''))])]])),
      sse_line (JSON_stringify (content_json (js ''lo''))),
      sse_line (js ''[DONE]'')]) =
     [Text (js ''Hel''), Text (js ''lo''),
      ToolCalls [\<lparr>tc_id = js ''a'', tc_name = js ''f'', tc_arguments = []\<rparr>]]\<close>
proof -
  let ?pieces = \<open>[sse_line (JSON_stringify (content_json (js ''Hel''))),
      sse_line (JSON_stringify (tool_calls_json
        [JObject [(js ''index'', JNumber (js ''0'')), (js ''id'', JString (js ''a'')),
                  (js ''function'', JObject [(js ''name'', JString (js ''f''))])]])),
      sse_line (JSON_stringify (content_json (js ''lo''))),
      sse_line (js ''[DONE]'')]\<close>
  have texts: "map Text (delta_texts (decoded_deltas parse_chunk ?pieces))
                 = [Text (js ''Hel''), Text (js ''lo'')]"
    by code_simp
  have batch: "batch_of (chatCompletionStream parse_chunk ?pieces)
                 = [ToolCalls [\<lparr>tc_id = js ''a'', tc_name = js ''f'', tc_arguments = []\<rparr>]]"
    by code_simp
  show ?thesis
    using events_in_decode_order[of parse_chunk ?pieces] unfolding texts batch by simp
qed

text \<open>
  A chunk that parses and then throws. The first line carries a text and a
  \<^verbatim>\<open>tool_calls\<close> that is a number: the text is yielded, then the loop throws and the
  \<^verbatim>\<open>catch\<close> block warns. The second line opens call \<^verbatim>\<open>a\<close> and then has a \<^verbatim>\<open>null\<close>
  element: the call is opened, then the loop throws. The third line is processed as usual.
\<close>

lemma throw_after_effects:
  \<open>chatCompletionStream parse_chunk
     [sse_line (js ''{"choices":[{"delta":{"content":"hi","tool_calls":5}}]}''),
      sse_line (js ''{"choices":[{"delta":{"tool_calls":[{"index":0,"id":"a","function":{"name":"f"}},null]}}]}''),
      sse_line (JSON_stringify (content_json (js ''ok'')))] =
     \<lparr>currentToolCall = Some \<lparr>tc_id = js ''a'', tc_name = js ''f'', tc_arguments = []\<rparr>,
       toolCallAccumulator = [\<lparr>tc_id = js ''a'', tc_name = js ''f'', tc_arguments = []\<rparr>],
       yielded = [Text (js ''hi''), Text (js ''ok''),
                  ToolCalls [\<lparr>tc_id = js ''a'', tc_name = js ''f'', tc_arguments = []\<rparr>]],
       warnings = 2\<rparr>\<close>
  by code_simp



text \<open>
  C10. A tool-call delta with index 0 and no id (absent or empty) neither opens a call nor
  closes the open one: the completed calls are unchanged, its name and arguments fragments
  are appended to the open call, and with no open call the state does not change at all.
  Every tool call of every batch the generator yields has a non-empty id.
\<close>

theorem delta_without_id:
  assumes "tcd_index d = Some 0" and "\<not> truthy (tcd_id d)"
  shows "toolCallAccumulator (applyToolCallDelta st d) = toolCallAccumulator st
       \<and> (case currentToolCall st of
            None \<Rightarrow> applyToolCallDelta st d = st
          | Some c \<Rightarrow> currentToolCall (applyToolCallDelta st d) =
                       Some (c\<lparr>tc_name := tc_name c @ fragmentName d,
                                tc_arguments := tc_arguments c @ fragmentArguments d\<rparr>))
       \<and> (\<forall>tcs tc. ToolCalls tcs \<in> set (yielded (chatCompletionStream parse pieces))
             \<and> tc \<in> set tcs \<longrightarrow> tc_id tc \<noteq> [])"
proof -
  have no: "\<not> opensCall d" using assms by (simp add: opensCall_def)
  have a: "toolCallAccumulator (applyToolCallDelta st d) = toolCallAccumulator st"
    using no by (simp add: applyToolCallDelta_def openCall_def appendFragments_def split: option.splits)
  have b: "(case currentToolCall st of
            None \<Rightarrow> applyToolCallDelta st d = st
          | Some c \<Rightarrow> currentToolCall (applyToolCallDelta st d) =
                       Some (c\<lparr>tc_name := tc_name c @ fragmentName d,
                                tc_arguments := tc_arguments c @ fragmentArguments d\<rparr>))"
    using no by (simp add: applyToolCallDelta_def openCall_def appendFragments_def split: option.splits)
  have c: "\<forall>tcs tc. ToolCalls tcs \<in> set (yielded (chatCompletionStream parse pieces))
             \<and> tc \<in> set tcs \<longrightarrow> tc_id tc \<noteq> []"
    using ids_ok_chatCompletionStream[of parse pieces]
    by (auto simp: ids_ok_def list_all_iff split: event.splits)
  show ?thesis using a b c by blast
qed

theorem delta_without_id_witness:
  \<open>applyToolCallDelta
      \<lparr>currentToolCall = Some \<lparr>tc_id = js ''a'', tc_name = js ''f'', tc_arguments = js ''{''\<rparr>,
        toolCallAccumulator = [], yielded = [], warnings = 0\<rparr>
      \<lparr>tcd_index = Some 0, tcd_id = None,
        tcd_function = Some \<lparr>fd_name = Some (js ''g''), fd_arguments = Some (js ''}''), fd_throws = False\<rparr>\<rparr> =
      \<lparr>currentToolCall = Some \<lparr>tc_id = js ''a'', tc_name = js ''fg'', tc_arguments = js ''{}''\<rparr>,
        toolCallAccumulator = [], yielded = [], warnings = 0\<rparr>
   \<and> applyToolCallDelta initial_state
      \<lparr>tcd_index = Some 0, tcd_id = Some [],
        tcd_function = Some \<lparr>fd_name = Some (js ''g''), fd_arguments = Some (js ''}''), fd_throws = False\<rparr>\<rparr> = initial_state
   \<and> yielded (chatCompletionStream parse_chunk
        [sse_line (JSON_stringify (tool_calls_json
           [JObject [(js ''index'', JNumber (js ''0'')),
                     (js ''function'', JObject [(js ''name'', JString (js ''g''))])]])),
         sse_line (js ''[DONE]'')]) = []\<close>
proof -
  let ?st = \<open>\<lparr>currentToolCall = Some \<lparr>tc_id = js ''a'', tc_name = js ''f'', tc_arguments = js ''{''\<rparr>,
        toolCallAccumulator = [], yielded = [], warnings = 0\<rparr>\<close>
  let ?d = \<open>\<lparr>tcd_index = Some 0, tcd_id = None,
        tcd_function = Some \<lparr>fd_name = Some (js ''g''), fd_arguments = Some (js ''}''), fd_throws = False\<rparr>\<rparr>\<close>
  let ?e = \<open>\<lparr>tcd_index = Some 0, tcd_id = Some [],
        tcd_function = Some \<lparr>fd_name = Some (js ''g''), fd_arguments = Some (js ''}''), fd_throws = False\<rparr>\<rparr>\<close>
  have d0: "tcd_index ?d = Some 0" and d1: "\<not> truthy (tcd_id ?d)" by simp_all
  have e0: "tcd_index ?e = Some 0" and e1: "\<not> truthy (tcd_id ?e)" by simp_all
  have one: "applyToolCallDelta ?st ?d =
      \<lparr>currentToolCall = Some \<lparr>tc_id = js ''a'', tc_name = js ''fg'', tc_arguments = js ''{}''\<rparr>,
        toolCallAccumulator = [], yielded = [], warnings = 0\<rparr>"
    using delta_without_id[where parse = parse_chunk and pieces = "[]" and st = ?st, OF d0 d1]
    by (simp add: applyToolCallDelta_def appendFragments_def openCall_def opensCall_def
          fragmentName_def fragmentArguments_def)
  have two: "applyToolCallDelta initial_state ?e = initial_state"
    using delta_without_id[where parse = parse_chunk and pieces = "[]" and st = initial_state, OF e0 e1]
    by (simp add: initial_state_def)
  have three: \<open>yielded (chatCompletionStream parse_chunk
        [sse_line (JSON_stringify (tool_calls_json
           [JObject [(js ''index'', JNumber (js ''0'')),
                     (js ''function'', JObject [(js ''name'', JString (js ''g''))])]])),
         sse_line (js ''[DONE]'')]) = []\<close>
    by code_simp
  show ?thesis using one two three by simp
qed

section \<open>Properties of the translator, of discovery and of the token estimate\<close>

text \<open>
  C2. The claim that the arguments of every tool call of a batch event are valid JSON text
  fails: the batch carries the concatenation of the fragments as they came. With one delta
  that opens call \<^verbatim>\<open>a\<close> with the arguments fragment \<^verbatim>\<open>{"x":\<close>, followed by the terminal
  marker, the batch holds these arguments, which \<^verbatim>\<open>JSON.parse\<close> rejects.
\<close>

theorem batch_arguments_not_json:
  \<open>yielded (chatCompletionStream parse_chunk
     [sse_line (JSON_stringify (tool_calls_json
        [JObject [(js ''index'', JNumber (js ''0'')), (js ''id'', JString (js ''a'')),
                  (js ''function'', JObject [(js ''name'', JString (js ''f'')),
                                          (js ''arguments'', JString (js ''{"x":''))])]])),
      sse_line (js ''[DONE]'')]) =
     [ToolCalls [\<lparr>tc_id = js ''a'', tc_name = js ''f'', tc_arguments = js ''{"x":''\<rparr>]]
   \<and> JSON_parse (js ''{"x":'') = None\<close>
  by code_simp

text \<open>
  C2, as amended. The calls of the batch are assembled from the tool-call deltas the
  generator ran on: every call has the id of the delta that opened it, and its name and
  its arguments are the concatenation of the fragments received for it, whether or not
  that is JSON text; a batch event carries exactly these calls. The fallback is in the
  translator: the invocation that \<^verbatim>\<open>convertOpenAIToolCallToGemini\<close> derives from a tool
  call carries the empty object when \<^verbatim>\<open>JSON.parse\<close> rejects the arguments text, and
  the value \<^verbatim>\<open>JSON.parse\<close> returns otherwise.
\<close>

theorem arguments_as_received_then_fallback:
  "toolCallAccumulator (chatCompletionStream parse pieces) =
     assembled (applied_deltas False (decoded_deltas parse pieces))
   \<and> (\<forall>tcs. ToolCalls tcs \<in> set (yielded (chatCompletionStream parse pieces)) \<longrightarrow>
          tcs = assembled (applied_deltas False (decoded_deltas parse pieces)))
   \<and> (JSON_parse (tc_arguments tc) = None \<longrightarrow>
        fc_args (convertOpenAIToolCallToGemini tc) = Some (JObject []))
   \<and> (\<forall>v. JSON_parse (tc_arguments tc) = Some v \<longrightarrow>
        fc_args (convertOpenAIToolCallToGemini tc) = Some v)"
proof -
  let ?r = "chatCompletionStream parse pieces"
  have acc: "toolCallAccumulator ?r = assembled (applied_deltas False (decoded_deltas parse pieces))"
    by (rule accumulator_chatCompletionStream)
  have y: "yielded ?r = map Text (delta_texts (decoded_deltas parse pieces)) @ batch_of ?r"
    by (rule yielded_chatCompletionStream)
  have batch: "\<forall>tcs. ToolCalls tcs \<in> set (yielded ?r) \<longrightarrow>
                 tcs = assembled (applied_deltas False (decoded_deltas parse pieces))"
    unfolding y using acc by (auto simp: batch_of_def split: if_splits)
  have none: "JSON_parse (tc_arguments tc) = None \<longrightarrow>
        fc_args (convertOpenAIToolCallToGemini tc) = Some (JObject [])"
    by (simp add: convertOpenAIToolCallToGemini_def)
  have some: "\<forall>v. JSON_parse (tc_arguments tc) = Some v \<longrightarrow>
        fc_args (convertOpenAIToolCallToGemini tc) = Some v"
    by (simp add: convertOpenAIToolCallToGemini_def)
  show ?thesis using acc batch none some by blast
qed

theorem arguments_as_received_then_fallback_witness:
  \<open>toolCallAccumulator (chatCompletionStream parse_chunk
     [sse_line (JSON_stringify (tool_calls_json
        [JObject [(js ''index'', JNumber (js ''0'')), (js ''id'', JString (js ''a'')),
                  (js ''function'', JObject [(js ''name'', JString (js ''f'')),
                                          (js ''arguments'', JString (js ''{"x":''))])]])),
      sse_line (JSON_stringify (tool_calls_json
        [JObject [(js ''function'', JObject [(js ''arguments'', JString (js ''1''))])]])),
      sse_line (js ''[DONE]'')]) =
     [\<lparr>tc_id = js ''a'', tc_name = js ''f'', tc_arguments = js ''{"x":1''\<rparr>]
   \<and> JSON_parse (js ''{"x":1'') = None
   \<and> fc_args (convertOpenAIToolCallToGemini
               \<lparr>tc_id = js ''a'', tc_name = js ''f'', tc_arguments = js ''{"x":1''\<rparr>)
       = Some (JObject [])
   \<and> JSON_parse (js ''{"x":1}'') = Some (JObject [(js ''x'', JNumber (js ''1''))])
   \<and> fc_args (convertOpenAIToolCallToGemini
               \<lparr>tc_id = js ''a'', tc_name = js ''f'', tc_arguments = js ''{"x":1}''\<rparr>)
       = Some (JObject [(js ''x'', JNumber (js ''1''))])\<close>
proof -
  let ?pieces = \<open>[sse_line (JSON_stringify (tool_calls_json
        [JObject [(js ''index'', JNumber (js ''0'')), (js ''id'', JString (js ''a'')),
                  (js ''function'', JObject [(js ''name'', JString (js ''f'')),
                                          (js ''arguments'', JString (js ''{"x":''))])]])),
      sse_line (JSON_stringify (tool_calls_json
        [JObject [(js ''function'', JObject [(js ''arguments'', JString (js ''1''))])]])),
      sse_line (js ''[DONE]'')]\<close>
  have d: \<open>assembled (applied_deltas False (decoded_deltas parse_chunk ?pieces)) =
     [\<lparr>tc_id = js ''a'', tc_name = js ''f'', tc_arguments = js ''{"x":1''\<rparr>]\<close>
    by code_simp
  have a: \<open>JSON_parse (js ''{"x":1'') = None\<close> by code_simp
  have b: \<open>JSON_parse (js ''{"x":1}'') = Some (JObject [(js ''x'', JNumber (js ''1''))])\<close>
    by code_simp
  show ?thesis
    using arguments_as_received_then_fallback[of parse_chunk ?pieces
        \<open>\<lparr>tc_id = js ''a'', tc_name = js ''f'', tc_arguments = js ''{"x":1''\<rparr>\<close>]
      arguments_as_received_then_fallback[of parse_chunk ?pieces
        \<open>\<lparr>tc_id = js ''a'', tc_name = js ''f'', tc_arguments = js ''{"x":1}''\<rparr>\<close>]
      a b
    unfolding d by simp
qed

text \<open>
  C6. When the server answers with a models list in which both arrays are absent or empty,
  \<^verbatim>\<open>initialize\<close> throws the error \<^verbatim>\<open>No models available from llama.cpp server\<close> (the
  discovery failure) and leaves the client as it was; on a new client the model identifier
  is still the empty jsstring.
\<close>

theorem no_models_is_discovery_failure:
  assumes "models r = None \<or> models r = Some []"
    and "data r = None \<or> data r = Some []"
  shows "initialize client (Response True status statusText (Some r))
           = (Some NoModelsAvailable, client)
       \<and> model (snd (initialize (new_LlamaCppClient url)
                          (Response True status statusText (Some r)))) = []"
  using assms by (auto simp: initialize_def new_LlamaCppClient_def)

theorem no_models_is_discovery_failure_witness:
  "initialize (new_LlamaCppClient (js ''http://localhost:8080/''))
       (Response True 200 (js ''OK'') (Some \<lparr>models = Some [], data = None\<rparr>))
     = (Some NoModelsAvailable,
        \<lparr>baseUrl = js ''http://localhost:8080'', model = [], displayName = js ''llama.cpp''\<rparr>)"
proof -
  have a: "models \<lparr>models = Some [], data = None\<rparr> = None
           \<or> models \<lparr>models = Some [], data = None\<rparr> = Some ([] :: LlamaCppModel list)"
    by simp
  have b: "data \<lparr>models = Some ([] :: LlamaCppModel list), data = None\<rparr> = None
           \<or> data \<lparr>models = Some ([] :: LlamaCppModel list), data = None\<rparr> = Some ([] :: OpenAIModel list)"
    by simp
  show ?thesis
    using no_models_is_discovery_failure[OF a b,
        of "new_LlamaCppClient (js ''http://localhost:8080/'')" 200 "js ''OK''" "[]"]
    by (simp add: new_LlamaCppClient_def)
qed

text \<open>
  C7. The claim that the display name never ends with the file-extension suffix fails:
  one trailing \<^verbatim>\<open>.gguf\<close> is removed, so a file name that ends in \<^verbatim>\<open>.gguf.gguf\<close> gives a
  display name that still ends in \<^verbatim>\<open>.gguf\<close>.
\<close>

theorem display_name_keeps_second_suffix:
  "initialize (new_LlamaCppClient (js ''http://localhost:8080''))
       (Response True 200 (js ''OK'')
          (Some \<lparr>models = Some [\<lparr>model_name = js ''/models/m.gguf.gguf''\<rparr>], data = None\<rparr>))
     = (None, \<lparr>baseUrl = js ''http://localhost:8080'', model = js ''/models/m.gguf.gguf'',
                displayName = js ''m.gguf''\<rparr>)
   \<and> suffix (js ''.gguf'') (js ''m.gguf'')"
  by code_simp

text \<open>
  C7, as amended. With at least one entry in either shape \<^verbatim>\<open>initialize\<close> succeeds. It
  takes element 0 of \<^verbatim>\<open>models\<close> when that array has an entry, and element 0 of
  \<^verbatim>\<open>data\<close> otherwise. The display name is the last \<^verbatim>\<open>/\<close>-separated segment of the
  identifier with one trailing \<^verbatim>\<open>.gguf\<close> removed: it contains no \<^verbatim>\<open>/\<close>, and it ends with
  \<^verbatim>\<open>.gguf\<close> only when the segment ends with \<^verbatim>\<open>.gguf.gguf\<close>.
\<close>

theorem discovery_selects_first_model:
  "(models r = Some (m # ms) \<longrightarrow>
      initialize client (Response True status statusText (Some r))
        = (None, client\<lparr>model := model_name m, displayName := extractModelName (model_name m)\<rparr>))
   \<and> ((models r = None \<or> models r = Some []) \<and> data r = Some (d # ds) \<longrightarrow>
      initialize client (Response True status statusText (Some r))
        = (None, client\<lparr>model := model_id d, displayName := extractModelName (model_id d)\<rparr>))
   \<and> U (CHR ''/'') \<notin> set (extractModelName p)
   \<and> extractModelName p = strip_gguf (last (split_on (U (CHR ''/'')) p))
   \<and> (suffix (js ''.gguf'') (extractModelName p)
        \<longleftrightarrow> suffix (js ''.gguf.gguf'') (last (split_on (U (CHR ''/'')) p)))"
proof -
  have a: "models r = Some (m # ms) \<longrightarrow>
      initialize client (Response True status statusText (Some r))
        = (None, client\<lparr>model := model_name m, displayName := extractModelName (model_name m)\<rparr>)"
    by (simp add: initialize_def)
  have b: "(models r = None \<or> models r = Some []) \<and> data r = Some (d # ds) \<longrightarrow>
      initialize client (Response True status statusText (Some r))
        = (None, client\<lparr>model := model_id d, displayName := extractModelName (model_id d)\<rparr>)"
    by (auto simp: initialize_def)
  show ?thesis
    using a b extractModelName_no_slash[of p] extractModelName_eq[of p]
      suffix_strip_gguf[of "last (split_on (U (CHR ''/'')) p)"]
    by simp
qed

theorem discovery_selects_first_model_witness:
  "initialize (new_LlamaCppClient (js ''http://localhost:8080''))
       (Response True 200 (js ''OK'')
          (Some \<lparr>models = Some [],
                 data = Some [\<lparr>model_id = js ''/mnt/GGUF/gemma-3-27b-it.Q8_0.gguf''\<rparr>,
                              \<lparr>model_id = js ''other''\<rparr>]\<rparr>))
     = (None, \<lparr>baseUrl = js ''http://localhost:8080'',
                model = js ''/mnt/GGUF/gemma-3-27b-it.Q8_0.gguf'',
                displayName = js ''gemma-3-27b-it.Q8_0''\<rparr>)"
proof -
  let ?r = "\<lparr>models = Some ([] :: LlamaCppModel list),
              data = Some [\<lparr>model_id = js ''/mnt/GGUF/gemma-3-27b-it.Q8_0.gguf''\<rparr>,
                           \<lparr>model_id = js ''other''\<rparr>]\<rparr>"
  have name: "extractModelName (js ''/mnt/GGUF/gemma-3-27b-it.Q8_0.gguf'') = js ''gemma-3-27b-it.Q8_0''"
    by code_simp
  have pre: "(models ?r = None \<or> models ?r = Some [])
             \<and> data ?r = Some [\<lparr>model_id = js ''/mnt/GGUF/gemma-3-27b-it.Q8_0.gguf''\<rparr>,
                                \<lparr>model_id = js ''other''\<rparr>]"
    by simp
  show ?thesis
    using discovery_selects_first_model[where r = ?r
        and client = "new_LlamaCppClient (js ''http://localhost:8080'')"
        and status = 200 and statusText = "js ''OK''"
        and d = "\<lparr>model_id = js ''/mnt/GGUF/gemma-3-27b-it.Q8_0.gguf''\<rparr>"
        and ds = "[\<lparr>model_id = js ''other''\<rparr>]"] pre name
    by (simp add: new_LlamaCppClient_def)
qed

text \<open>
  C8. Round trip of a tool invocation. The arguments of a canonical invocation are an
  object (\<^verbatim>\<open>Record<jsstring, unknown>\<close>); when they are well-formed JSON, translating to
  wire form and back gives an invocation with the same name and the same arguments.
\<close>

theorem tool_call_round_trip:
  assumes "fc_args functionCall = Some (JObject kvs)" and "wf_json (JObject kvs)"
  shows "fc_name (convertOpenAIToolCallToGemini
                   (convertGeminiFunctionCallToOpenAI generated functionCall callId))
           = fc_name functionCall
       \<and> fc_args (convertOpenAIToolCallToGemini
                   (convertGeminiFunctionCallToOpenAI generated functionCall callId))
           = fc_args functionCall"
  using assms JSON_parse_stringify[OF assms(2)]
  by (simp add: convertOpenAIToolCallToGemini_def convertGeminiFunctionCallToOpenAI_def
        del: JSON_stringify.simps wf_json.simps)

theorem tool_call_round_trip_witness:
  \<open>convertGeminiFunctionCallToOpenAI (js ''call_1_x'')
       \<lparr>fc_id = None, fc_name = js ''read_file'',
         fc_args = Some (JObject [(js ''path'', JString (js ''a"b'')), (js ''limit'', JNumber (js ''10''))])\<rparr> None
     = \<lparr>tc_id = js ''call_1_x'', tc_name = js ''read_file'',
        tc_arguments = js ''{"path":"a'' @ [U (CHR 0x5C)] @ js ''"b","limit":10}''\<rparr>
   \<and> fc_args (convertOpenAIToolCallToGemini
        (convertGeminiFunctionCallToOpenAI (js ''call_1_x'')
           \<lparr>fc_id = None, fc_name = js ''read_file'',
             fc_args = Some (JObject [(js ''path'', JString (js ''a"b'')), (js ''limit'', JNumber (js ''10''))])\<rparr> None))
     = Some (JObject [(js ''path'', JString (js ''a"b'')), (js ''limit'', JNumber (js ''10''))])\<close>
proof -
  let ?args = \<open>JObject [(js ''path'', JString (js ''a"b'')), (js ''limit'', JNumber (js ''10''))]\<close>
  let ?fc = \<open>\<lparr>fc_id = None, fc_name = js ''read_file'', fc_args = Some ?args\<rparr>\<close>
  have a: "fc_args ?fc = Some ?args" by simp
  have w: "wf_json ?args" by code_simp
  have wire: \<open>convertGeminiFunctionCallToOpenAI (js ''call_1_x'') ?fc None
     = \<lparr>tc_id = js ''call_1_x'', tc_name = js ''read_file'',
        tc_arguments = js ''{"path":"a'' @ [U (CHR 0x5C)] @ js ''"b","limit":10}''\<rparr>\<close>
    by code_simp
  show ?thesis
    using tool_call_round_trip[OF a w, of "js ''call_1_x''" None] wire by simp
qed

text \<open>
  C9. The claim that the estimate is the ceiling of a quarter of the number of characters
  of the textual content fails: for the single jsstring \<^verbatim>\<open>abcd\<close> that number is 4 and its
  quarter is 1, but \<^verbatim>\<open>countTokens\<close> returns 2, since it counts the space it puts after
  every item.
\<close>

theorem token_estimate_counts_separator:
  "countTokens (Single (CString (js ''abcd''))) = 2
   \<and> nat \<lceil>real (textual_characters (Single (CString (js ''abcd'')))) / 4\<rceil> = 1"
  by (simp add: countTokens_def contentText_def contents_list_def textual_characters_def)

text \<open>
  C9, as amended. The estimate is the ceiling of a quarter of the length of the text that
  \<^verbatim>\<open>countTokens\<close> builds: for every item its text and one space, where the text of a
  \<^verbatim>\<open>Content\<close> is the texts of its parts joined by single spaces.
\<close>

theorem token_estimate:
  "countTokens c = nat \<lceil>real (counted_characters c) / 4\<rceil>
   \<and> countTokens c = (counted_characters c + 3) div 4"
proof -
  have a: "countTokens c = nat \<lceil>real (counted_characters c) / 4\<rceil>"
    by (simp add: countTokens_def length_contentText)
  show ?thesis using a ceil_quarter[of "counted_characters c"] by simp
qed

theorem token_estimate_witness:
  "countTokens (Many [CString (js ''abcd''),
       CContent (Some (js ''user'')) (Some [\<lparr>part_text = Some (js ''ab'')\<rparr>, \<lparr>part_text = None\<rparr>])]) = 3
   \<and> counted_characters (Many [CString (js ''abcd''),
       CContent (Some (js ''user'')) (Some [\<lparr>part_text = Some (js ''ab'')\<rparr>, \<lparr>part_text = None\<rparr>])]) = 9"
proof -
  let ?c = "Many [CString (js ''abcd''),
       CContent (Some (js ''user'')) (Some [\<lparr>part_text = Some (js ''ab'')\<rparr>, \<lparr>part_text = None\<rparr>])]"
  have n: "counted_characters ?c = 9"
    by (simp add: counted_characters_def contents_list_def parts_characters_def)
  show ?thesis
    using token_estimate[of ?c] n by simp
qed

end
